theory Spec2Isabelle
  imports Complex_Main "HOL-Library.Char_ord" "HOL-Library.List_Lexorder" "HOL-Library.Sublist"
begin

section \<open>Python values\<close>

text \<open>
  The monitoring agents (\<open>agent_6_watcher.py\<close>, \<open>agent_7_executor.py\<close>,
  \<open>agent_8_sanity_flag.py\<close>) work on event records: Python dictionaries decoded from
  JSON, read with \<open>d.get(key)\<close> and \<open>d.get(key, default)\<close>. A value is \<open>None\<close>, a
  boolean, an integer, a string, a \<open>datetime\<close> or a dictionary. JSON arrays and
  floating-point numbers are not part of the modelled universe. Text is a list of
  8-bit characters, compared by character code as Python compares code points.

  A \<open>datetime\<close> is naive or aware. Ordering and subtraction are defined within each
  kind and raise \<open>TypeError\<close> across the two; the integer is the position in
  microseconds on the axis that ordering and subtraction use (the wall clock of a
  naive value, UTC of an aware one).
\<close>

datatype datetime = Naive int | Aware int

datatype pyval =
    PNone
  | PBool bool
  | PInt int
  | PStr string
  | PDatetime datetime
  | PDict "(string \<times> pyval) list"

type_synonym pydict = "(string \<times> pyval) list"

datatype error = TypeError | AttributeError

text \<open>\<open>d.get(k)\<close> is \<open>None\<close> for an absent key; \<open>d.get(k, v)\<close> is \<open>v\<close>.\<close>

definition dict_get_default :: "pydict \<Rightarrow> string \<Rightarrow> pyval \<Rightarrow> pyval" where
  "dict_get_default d k v = (case map_of d k of None \<Rightarrow> v | Some x \<Rightarrow> x)"

definition dict_get :: "pydict \<Rightarrow> string \<Rightarrow> pyval" where
  "dict_get d k = dict_get_default d k PNone"

text \<open>Truth value of an object in a condition (\<open>if x:\<close>, \<open>x and y\<close>, \<open>x or y\<close>).\<close>

fun truthy :: "pyval \<Rightarrow> bool" where
  "truthy PNone = False"
| "truthy (PBool b) = b"
| "truthy (PInt i) = (i \<noteq> 0)"
| "truthy (PStr s) = (s \<noteq> [])"
| "truthy (PDatetime d) = True"
| "truthy (PDict d) = (d \<noteq> [])"

definition py_or :: "pyval \<Rightarrow> pyval \<Rightarrow> pyval" where
  "py_or a b = (if truthy a then a else b)"

text \<open>Decimal rendering of a length inside an f-string.\<close>

definition digit_char :: "nat \<Rightarrow> char" where
  "digit_char n = char_of (48 + n)"

function show_nat :: "nat \<Rightarrow> string" where
  "show_nat n = (if n < 10 then [digit_char n] else show_nat (n div 10) @ [digit_char (n mod 10)])"
  by pat_completeness auto
termination
  by (relation "measure id") auto

declare show_nat.simps [simp del]

section \<open>Risk scoring\<close>

text \<open>
  \<open>agent_6_watcher._calculate_risk_score(violations, interactions)\<close>:
  \<^verbatim>\<open>
    if not violations: return 0
    base_score = 0
    for violation in violations:
        severity = violation.get("severity", "low")
        if severity == "high": base_score += 30
        elif severity == "medium": base_score += 15
        else: base_score += 5
    return min(100, base_score)
  \<close>
  The loop is a left fold over the violation list with the running total as state.
\<close>

definition add_violation :: "pydict \<Rightarrow> int \<Rightarrow> int" where
  "add_violation violation base_score =
     (let severity = dict_get_default violation ''severity'' (PStr ''low'')
      in if severity = PStr ''high'' then base_score + 30
         else if severity = PStr ''medium'' then base_score + 15
         else base_score + 5)"

definition watcher_calculate_risk_score :: "pydict list \<Rightarrow> pydict list \<Rightarrow> int" where
  "watcher_calculate_risk_score violations interactions =
     (if violations = [] then 0
      else min 100 (fold add_violation violations 0))"

text \<open>
  \<open>agent_8_sanity_flag._calculate_risk_score(violations, events)\<close> runs the same loop
  without the early return, then adds the two event-pattern bonuses and caps.
  \<open>len(copies) / len(modifications)\<close> is Python's true division; the quotient of the
  two lengths is taken in the rationals.
\<close>

definition is_prompt_sent :: "pydict \<Rightarrow> bool" where
  "is_prompt_sent e = (dict_get e ''event_type'' = PStr ''prompt_sent'')"

definition is_copy :: "pydict \<Rightarrow> bool" where
  "is_copy e = (dict_get e ''event_type'' \<in> set [PStr ''code_copied_from_ai'', PStr ''code_copied''])"

definition is_paste :: "pydict \<Rightarrow> bool" where
  "is_paste e = (dict_get e ''event_type'' \<in> set [PStr ''code_pasted_from_ai'', PStr ''code_pasted''])"

definition is_code_modified :: "pydict \<Rightarrow> bool" where
  "is_code_modified e = (dict_get e ''event_type'' = PStr ''code_modified'')"

definition is_response_received :: "pydict \<Rightarrow> bool" where
  "is_response_received e = (dict_get e ''event_type'' = PStr ''response_received'')"

definition flag_calculate_risk_score :: "pydict list \<Rightarrow> pydict list \<Rightarrow> int" where
  "flag_calculate_risk_score violations events =
     (let base_score = fold add_violation violations 0;
          prompts = filter is_prompt_sent events;
          copies = filter is_copy events;
          modifications = filter is_code_modified events;
          base_score =
            (if modifications \<noteq> [] \<and> copies \<noteq> [] then
               (let copy_mod_ratio = (of_nat (length copies) :: rat) / of_nat (length modifications)
                in if copy_mod_ratio > 2 then base_score + 20 else base_score)
             else base_score);
          base_score = (if length prompts > 20 then base_score + 15 else base_score)
      in min 100 base_score)"

text \<open>The weights as the specification words them, on the severity a violation carries.\<close>

definition spec_severity_weight :: "pydict \<Rightarrow> int" where
  "spec_severity_weight v =
     (case map_of v ''severity'' of
        Some (PStr s) \<Rightarrow> (if s = ''high'' then 30 else if s = ''medium'' then 15 else 5)
      | _ \<Rightarrow> 5)"

section \<open>Sanity checks\<close>

text \<open>
  \<open>agent_8_sanity_flag._generate_sanity_checks(violations, red_flags, anomalies)\<close>
  appends one dictionary with the keys \<open>check\<close>, \<open>status\<close>, \<open>message\<close> in each of its
  three sections.
\<close>

record sanity_check =
  check :: string
  status :: string
  message :: string

definition generate_sanity_checks ::
  "pydict list \<Rightarrow> pydict list \<Rightarrow> pydict list \<Rightarrow> sanity_check list" where
  "generate_sanity_checks violations red_flags anomalies =
     (let checks = [];
          checks =
            (if length violations > 5 then
               checks @ [\<lparr>check = ''violation_count'', status = ''failed'',
                          message = ''Too many violations: '' @ show_nat (length violations)\<rparr>]
             else
               checks @ [\<lparr>check = ''violation_count'', status = ''passed'',
                          message = ''Violation count acceptable: '' @ show_nat (length violations)\<rparr>]);
          checks =
            (if red_flags \<noteq> [] then
               (let high_severity_flags =
                      filter (\<lambda>f. dict_get f ''severity'' = PStr ''high'') red_flags
                in if high_severity_flags \<noteq> [] then
                     checks @ [\<lparr>check = ''red_flags'', status = ''failed'',
                                message = show_nat (length high_severity_flags)
                                            @ '' high-severity red flags detected''\<rparr>]
                   else
                     checks @ [\<lparr>check = ''red_flags'', status = ''warning'',
                                message = show_nat (length red_flags) @ '' red flags detected''\<rparr>])
             else
               checks @ [\<lparr>check = ''red_flags'', status = ''passed'',
                          message = ''No red flags detected''\<rparr>]);
          checks =
            (if anomalies \<noteq> [] then
               checks @ [\<lparr>check = ''anomalies'', status = ''warning'',
                          message = show_nat (length anomalies) @ '' anomalies detected''\<rparr>]
             else
               checks @ [\<lparr>check = ''anomalies'', status = ''passed'',
                          message = ''No anomalies detected''\<rparr>])
      in checks)"

section \<open>Library functions and the clock\<close>

text \<open>
  The agents call functions that live outside the repository. They are taken as an
  environment, so that every result below holds for whatever these functions return:
  \<^item> \<open>dateutil_parse\<close>: \<open>dateutil.parser.parse\<close> on a string, \<open>None\<close> when it raises;
  \<^item> \<open>isoformat\<close>: \<open>datetime.isoformat()\<close>;
  \<^item> \<open>str_other\<close>: \<open>str()\<close> of a datetime or of a dictionary;
  \<^item> \<open>json_loads\<close>: \<open>json.loads\<close> on a string, \<open>None\<close> when it raises;
  \<^item> \<open>clock\<close>: the wall-clock microseconds that the \<open>k\<close>-th evaluation of
    \<open>datetime.now()\<close> inside one call reads (\<open>datetime.now()\<close> is naive);
  \<^item> \<open>float_sum\<close>: the float that \<open>sum(gaps)\<close> returns, as the number it denotes,
    when \<open>gaps\<close> holds the floats that \<open>total_seconds()\<close> returned for the given
    exact numbers of seconds;
  \<^item> \<open>float_div\<close>: the float that \<open>s / n\<close> returns for a float \<open>s\<close> and a length \<open>n\<close>.

  Binary floating point rounds every sum and quotient, so the mean that the code
  computes need not be the exact mean of the gaps; which float comes out is left to
  the environment.
\<close>

record env =
  dateutil_parse :: "string \<Rightarrow> datetime option"
  isoformat :: "datetime \<Rightarrow> string"
  str_other :: "pyval \<Rightarrow> string"
  json_loads :: "string \<Rightarrow> pyval option"
  clock :: "nat \<Rightarrow> int"
  float_sum :: "rat list \<Rightarrow> rat"
  float_div :: "rat \<Rightarrow> nat \<Rightarrow> rat"

definition datetime_now :: "env \<Rightarrow> nat \<Rightarrow> datetime" where
  "datetime_now env k = Naive (clock env k)"

definition show_int :: "int \<Rightarrow> string" where
  "show_int i = (if i < 0 then CHR ''-'' # show_nat (nat (- i)) else show_nat (nat i))"

text \<open>\<open>str(v)\<close>, also what an f-string field \<open>{v}\<close> renders.\<close>

definition py_str :: "env \<Rightarrow> pyval \<Rightarrow> string" where
  "py_str env v =
     (case v of
        PStr s \<Rightarrow> s
      | PNone \<Rightarrow> ''None''
      | PBool b \<Rightarrow> (if b then ''True'' else ''False'')
      | PInt i \<Rightarrow> show_int i
      | _ \<Rightarrow> str_other env v)"

section \<open>Strings\<close>

definition newline :: char where
  "newline = CHR 0x0A"

text \<open>
  \<open>str.lower()\<close> on code points below 256: the ASCII capitals and the Latin-1
  capitals (all of \<open>0xC0..0xDE\<close> but the multiplication sign) move up by 32.
\<close>

definition lower_char :: "char \<Rightarrow> char" where
  "lower_char c =
     (let n = (of_char c :: nat)
      in if (65 \<le> n \<and> n \<le> 90) \<or> (192 \<le> n \<and> n \<le> 214) \<or> (216 \<le> n \<and> n \<le> 222)
         then char_of (n + 32) else c)"

definition lower :: "string \<Rightarrow> string" where
  "lower s = map lower_char s"

text \<open>\<open>v.lower()\<close> on a value: only a string has the method.\<close>

definition py_lower :: "pyval \<Rightarrow> error + string" where
  "py_lower v = (case v of PStr s \<Rightarrow> Inr (lower s) | _ \<Rightarrow> Inl AttributeError)"

text \<open>\<open>s.split(sep)\<close> for a one-character separator.\<close>

fun split :: "char \<Rightarrow> string \<Rightarrow> string list" where
  "split sep [] = [[]]"
| "split sep (c # cs) =
     (if c = sep then [] # split sep cs
      else (case split sep cs of [] \<Rightarrow> [[c]] | l # ls \<Rightarrow> (c # l) # ls))"

text \<open>\<open>len(v.split("\n"))\<close> on a value: only a string has the method.\<close>

definition split_lines_len :: "pyval \<Rightarrow> error + nat" where
  "split_lines_len v =
     (case v of PStr s \<Rightarrow> Inr (length (split newline s)) | _ \<Rightarrow> Inl AttributeError)"

text \<open>
  \<open>re.search(pattern, text)\<close> for the patterns the agents use: literal words joined
  by \<open>.*\<close>, as in \<open>solve.*entire.*problem\<close>. The pattern is the list of its words.
  A match may start anywhere in the text; \<open>.\<close> matches any character but a newline.
  The flag tells whether the position is inside a \<open>.*\<close> (where only characters other
  than a newline may be skipped) or before the start of the match.
\<close>

fun re_seq :: "bool \<Rightarrow> string list \<Rightarrow> string \<Rightarrow> bool" where
  "re_seq gap [] t = True"
| "re_seq gap (w # ws) [] = (w = [] \<and> re_seq True ws [])"
| "re_seq gap (w # ws) (c # t) =
     ((prefix w (c # t) \<and> re_seq True ws (drop (length w) (c # t)))
      \<or> ((if gap then c \<noteq> newline else True) \<and> re_seq gap (w # ws) t))"

definition re_search :: "string list \<Rightarrow> string \<Rightarrow> bool" where
  "re_search pattern text = re_seq False pattern text"

text \<open>A pattern with alternatives (\<open>a|b.*c|d\<close>) is the list of its alternatives.\<close>

definition re_search_alt :: "string list list \<Rightarrow> string \<Rightarrow> bool" where
  "re_search_alt alternatives text = list_ex (\<lambda>p. re_search p text) alternatives"

section \<open>Loops that append and may raise\<close>

text \<open>
  A \<open>for\<close> loop whose body appends to a result list, or raises: the results of the
  bodies in order, up to the first exception.
\<close>

fun for_each :: "('a \<Rightarrow> error + 'b list) \<Rightarrow> 'a list \<Rightarrow> error + 'b list" where
  "for_each body [] = Inr []"
| "for_each body (x # xs) =
     (case body x of
        Inl e \<Rightarrow> Inl e
      | Inr ys \<Rightarrow> (case for_each body xs of Inl e \<Rightarrow> Inl e | Inr zs \<Rightarrow> Inr (ys @ zs)))"

text \<open>Two sections of a function run one after the other, each appending.\<close>

definition and_then :: "error + 'b list \<Rightarrow> error + 'b list \<Rightarrow> error + 'b list" where
  "and_then first second =
     (case first of
        Inl e \<Rightarrow> Inl e
      | Inr ys \<Rightarrow> (case second of Inl e \<Rightarrow> Inl e | Inr zs \<Rightarrow> Inr (ys @ zs)))"

section \<open>Violation detection\<close>

text \<open>
  The timestamp expression shared by every detector and by the timeline:
  \<^verbatim>\<open>
    e.get("timestamp", datetime.now()).isoformat()
        if isinstance(e.get("timestamp"), datetime) else str(e.get("timestamp", ""))
  \<close>
\<close>

definition timestamp_text :: "env \<Rightarrow> pydict \<Rightarrow> string" where
  "timestamp_text env e =
     (case dict_get e ''timestamp'' of
        PDatetime d \<Rightarrow> isoformat env d
      | _ \<Rightarrow> py_str env (dict_get_default e ''timestamp'' (PStr [])))"

definition violation :: "string \<Rightarrow> string \<Rightarrow> string \<Rightarrow> string \<Rightarrow> pydict" where
  "violation severity type text stamp =
     [(''severity'', PStr severity), (''type'', PStr type),
      (''description'', PStr text), (''timestamp'', PStr stamp)]"

definition has_prompt_text :: "pydict \<Rightarrow> bool" where
  "has_prompt_text e = (is_prompt_sent e \<and> truthy (dict_get e ''prompt_text''))"

text \<open>
  The metadata of a file or terminal event: a dictionary, or a string that
  \<open>json.loads\<close> decodes, with \<open>{}\<close> when decoding raises.
\<close>

definition load_metadata :: "env \<Rightarrow> pydict \<Rightarrow> pyval" where
  "load_metadata env e =
     (let metadata = dict_get_default e ''metadata'' (PDict [])
      in case metadata of
           PStr s \<Rightarrow> (case json_loads env s of None \<Rightarrow> PDict [] | Some v \<Rightarrow> v)
         | _ \<Rightarrow> metadata)"








text \<open>
  \<open>agent_8_sanity_flag._detect_violations\<close>. Its loop reads the clock once for every
  matching prompt whose timestamp is a datetime (the default argument of \<open>get\<close>), so
  the two \<open>datetime.now().isoformat()\<close> stamps after the loop are later readings.
\<close>

definition solution_patterns :: "string list list" where
  "solution_patterns =
     [[''solve'', ''entire'', ''problem''],
      [''write'', ''complete'', ''solution''],
      [''give'', ''full'', ''code''],
      [''do'', ''whole'', ''thing''],
      [''complete'', ''for'', ''me'']]"

definition solution_pattern_check :: "env \<Rightarrow> pydict \<Rightarrow> error + pydict list" where
  "solution_pattern_check env prompt =
     (case py_lower (dict_get_default prompt ''prompt_text'' (PStr [])) of
        Inl e \<Rightarrow> Inl e
      | Inr prompt_text \<Rightarrow>
          if list_ex (\<lambda>pattern. re_search pattern prompt_text) solution_patterns then
            Inr [violation ''high'' ''solution_request_pattern''
                   ''Candidate requested complete solution''
                   (timestamp_text env prompt)]
          else Inr [])"

definition has_datetime_timestamp :: "pydict \<Rightarrow> bool" where
  "has_datetime_timestamp e = (case dict_get e ''timestamp'' of PDatetime d \<Rightarrow> True | _ \<Rightarrow> False)"

definition flag_detect_violations :: "env \<Rightarrow> pydict list \<Rightarrow> error + pydict list" where
  "flag_detect_violations env events =
     (let prompts = filter has_prompt_text events
      in case for_each (solution_pattern_check env) prompts of
           Inl e \<Rightarrow> Inl e
         | Inr violations \<Rightarrow>
             (let k = length (filter (\<lambda>v. has_datetime_timestamp v) 
                                (filter (\<lambda>p. solution_pattern_check env p \<noteq> Inr []) prompts));
                  copy_events = filter is_copy events;
                  excessive = (length copy_events > 5);
                  violations =
                    (if excessive then
                       violations @
                         [violation ''high'' ''excessive_copying''
                            (''Excessive code copying: '' @ show_nat (length copy_events) @ '' copy events'')
                            (isoformat env (datetime_now env k))]
                     else violations);
                  k = (if excessive then k + 1 else k);
                  modifications = filter is_code_modified events;
                  violations =
                    (if length modifications < 3 \<and> length prompts > 10 then
                       violations @
                         [violation ''medium'' ''suspicious_timing''
                            ''Very few modifications compared to prompts (potential copy-paste)''
                            (isoformat env (datetime_now env k))]
                     else violations)
              in Inr violations))"

text \<open>
  A prompt whose text, lowered, matches one of the flag-mode solution patterns.
\<close>

definition matches_solution_patterns :: "pydict \<Rightarrow> bool" where
  "matches_solution_patterns e =
     (case dict_get e ''prompt_text'' of
        PStr s \<Rightarrow> list_ex (\<lambda>pattern. re_search pattern (lower s)) solution_patterns
      | _ \<Rightarrow> False)"

definition violation_type :: "pydict \<Rightarrow> pyval" where
  "violation_type v = dict_get v ''type''"

section \<open>Timeline\<close>

text \<open>
  \<open>agent_6_watcher._build_timeline\<close> appends one entry per event, with the keys
  \<open>type\<close>, \<open>timestamp\<close>, \<open>description\<close>, and sorts the entries by
  \<open>x.get("timestamp", "")\<close>. The timestamp of an entry is always a string, so the sort
  compares strings; \<open>list.sort\<close> is stable. A description helper returns the raw
  event type in its last branch, so a description is a value.
\<close>

record timeline_entry =
  entry_type :: pyval
  timestamp :: string
  description :: pyval

text \<open>The arrow of the rename description (U+2192), as its UTF-8 bytes.\<close>

definition arrow :: string where
  "arrow = [CHR 0xE2, CHR 0x86, CHR 0x92]"

text \<open>
  \<open>_get_event_description\<close>. \<open>len(prompt_text)\<close> raises on a value without a length;
  a dictionary has one, and slicing it raises (reported here as \<open>TypeError\<close>).
\<close>

definition get_event_description :: "env \<Rightarrow> pydict \<Rightarrow> error + pyval" where
  "get_event_description env event =
     (let event_type = dict_get_default event ''event_type'' (PStr [])
      in if event_type = PStr ''prompt_sent'' then
           (let prompt_text = dict_get_default event ''prompt_text'' (PStr [])
            in case prompt_text of
                 PStr s \<Rightarrow>
                   Inr (PStr (if length s > 50 then ''Asked: '' @ take 50 s @ ''...''
                              else ''Asked: '' @ s))
               | PDict d \<Rightarrow>
                   if length (remdups (map fst d)) > 50 then Inl TypeError
                   else Inr (PStr (''Asked: '' @ py_str env prompt_text))
               | _ \<Rightarrow> Inl TypeError)
         else if event_type = PStr ''response_received'' then Inr (PStr ''Received AI response'')
         else if event_type \<in> set [PStr ''code_copied_from_ai'', PStr ''code_copied''] then
           (case split_lines_len (dict_get_default event ''code_snippet'' (PStr [])) of
              Inl e \<Rightarrow> Inl e
            | Inr lines \<Rightarrow> Inr (PStr (''Copied code ('' @ show_nat lines @ '' lines)'')))
         else if event_type = PStr ''code_modified'' then Inr (PStr ''Modified code'')
         else Inr event_type)"

text \<open>\<open>_get_file_event_description\<close>: the path is read before the event type is looked at.\<close>

definition get_file_event_description :: "env \<Rightarrow> pydict \<Rightarrow> error + pyval" where
  "get_file_event_description env event =
     (let event_type = dict_get_default event ''event_type'' (PStr []);
          metadata = load_metadata env event
      in case metadata of
           PDict m \<Rightarrow>
             (let file_path = py_or (dict_get_default m ''filePath'' (PStr []))
                                    (dict_get_default m ''fileName'' (PStr []));
                  is_directory = dict_get_default m ''isDirectory'' (PBool False);
                  kind = (if truthy is_directory then ''folder'' else ''file'')
              in if event_type = PStr ''file_created'' then
                   Inr (PStr (''Created '' @ kind @ '': '' @ py_str env file_path))
                 else if event_type = PStr ''file_modified'' then
                   Inr (PStr (''Modified: '' @ py_str env file_path))
                 else if event_type = PStr ''file_deleted'' then
                   Inr (PStr (''Deleted '' @ kind @ '': '' @ py_str env file_path))
                 else if event_type = PStr ''file_renamed'' then
                   (let new_name = dict_get_default m ''newName'' (PStr [])
                    in Inr (PStr (''Renamed: '' @ py_str env file_path @ '' '' @ arrow @ '' ''
                                  @ py_str env new_name)))
                 else Inr event_type)
         | _ \<Rightarrow> Inl AttributeError)"

text \<open>\<open>_get_terminal_event_description\<close>: the metadata is read only in the two named branches.\<close>

definition get_terminal_event_description :: "env \<Rightarrow> pydict \<Rightarrow> error + pyval" where
  "get_terminal_event_description env event =
     (let event_type = dict_get_default event ''event_type'' (PStr []);
          metadata = load_metadata env event
      in if event_type = PStr ''terminal_spawned'' then
           (case metadata of
              PDict m \<Rightarrow>
                Inr (PStr (''New terminal: ''
                           @ py_str env (dict_get_default m ''terminalName'' (PStr ''Terminal''))))
            | _ \<Rightarrow> Inl AttributeError)
         else if event_type = PStr ''command_executed'' then
           (case metadata of
              PDict m \<Rightarrow>
                Inr (PStr (''Ran: '' @ py_str env (dict_get_default m ''command'' (PStr ''command''))))
            | _ \<Rightarrow> Inl AttributeError)
         else Inr event_type)"

definition timeline_entry_of ::
  "env \<Rightarrow> (env \<Rightarrow> pydict \<Rightarrow> error + pyval) \<Rightarrow> pydict \<Rightarrow> error + timeline_entry list" where
  "timeline_entry_of env describe event =
     (case describe env event of
        Inl e \<Rightarrow> Inl e
      | Inr d \<Rightarrow>
          Inr [\<lparr>entry_type = dict_get_default event ''event_type'' (PStr []),
                timestamp = timestamp_text env event,
                description = d\<rparr>])"

definition build_timeline ::
  "env \<Rightarrow> pydict list \<Rightarrow> pydict list \<Rightarrow> pydict list \<Rightarrow> error + timeline_entry list" where
  "build_timeline env interactions file_operations terminal_events =
     (case and_then (for_each (timeline_entry_of env get_event_description) interactions)
             (and_then (for_each (timeline_entry_of env get_file_event_description) file_operations)
                (for_each (timeline_entry_of env get_terminal_event_description) terminal_events)) of
        Inl e \<Rightarrow> Inl e
      | Inr timeline \<Rightarrow> Inr (sort_key timestamp timeline))"

section \<open>Time differences\<close>

text \<open>
  \<open>_time_diff(timestamp1, timestamp2)\<close>, defined alike in \<open>agent_7_executor.py\<close> and
  \<open>agent_8_sanity_flag.py\<close>:
  \<^verbatim>\<open>
    try:
        if isinstance(timestamp1, str): timestamp1 = parse(timestamp1)
        if isinstance(timestamp2, str): timestamp2 = parse(timestamp2)
        if isinstance(timestamp1, datetime) and isinstance(timestamp2, datetime):
            diff = (timestamp2 - timestamp1).total_seconds()
            return diff if diff > 0 else None
    except: pass
    return None
  \<close>
  The result stands for the exact number of seconds, a whole number of
  microseconds. The float that \<open>total_seconds()\<close> returns is the one nearest to it,
  and compares with 0, 30 and 300 as the exact number does. Where the code adds
  and divides such floats (the mean gap), the result is taken from the
  environment.
\<close>

definition parse_if_str :: "env \<Rightarrow> pyval \<Rightarrow> pyval option" where
  "parse_if_str env t =
     (case t of
        PStr s \<Rightarrow> (case dateutil_parse env s of None \<Rightarrow> None | Some d \<Rightarrow> Some (PDatetime d))
      | _ \<Rightarrow> Some t)"

text \<open>\<open>(d2 - d1).total_seconds()\<close>; \<open>None\<close> stands for the \<open>TypeError\<close> of mixing kinds.\<close>

fun total_seconds_between :: "datetime \<Rightarrow> datetime \<Rightarrow> rat option" where
  "total_seconds_between (Naive a) (Naive b) = Some (of_int (b - a) / 1000000)"
| "total_seconds_between (Aware a) (Aware b) = Some (of_int (b - a) / 1000000)"
| "total_seconds_between _ _ = None"

definition time_diff :: "env \<Rightarrow> pyval \<Rightarrow> pyval \<Rightarrow> rat option" where
  "time_diff env timestamp1 timestamp2 =
     (case parse_if_str env timestamp1 of
        None \<Rightarrow> None
      | Some t1 \<Rightarrow>
          (case parse_if_str env timestamp2 of
             None \<Rightarrow> None
           | Some t2 \<Rightarrow>
               (case (t1, t2) of
                  (PDatetime d1, PDatetime d2) \<Rightarrow>
                    (case total_seconds_between d1 d2 of
                       None \<Rightarrow> None
                     | Some diff \<Rightarrow> if diff > 0 then Some diff else None)
                | _ \<Rightarrow> None)))"

text \<open>
  The gaps of consecutive events, as both gap loops compute them:
  \<^verbatim>\<open>
    for i in range(1, len(xs)):
        gap = _time_diff(xs[i-1].get("timestamp"), xs[i].get("timestamp"))
        if gap: gaps.append(gap)
  \<close>
\<close>

fun consecutive_gaps :: "env \<Rightarrow> pydict list \<Rightarrow> rat list" where
  "consecutive_gaps env (a # b # rest) =
     (case time_diff env (dict_get a ''timestamp'') (dict_get b ''timestamp'') of
        None \<Rightarrow> []
      | Some gap \<Rightarrow> if gap \<noteq> 0 then [gap] else [])
     @ consecutive_gaps env (b # rest)"
| "consecutive_gaps env [a] = []"
| "consecutive_gaps env [] = []"

section \<open>Ordering values\<close>

text \<open>
  \<open>a < b\<close> on values: numbers (booleans count as 0 and 1) by value, strings
  lexicographically, datetimes of one kind by position; every other pair raises
  \<open>TypeError\<close>, also \<open>None < None\<close> and two dictionaries.
\<close>

fun py_lt :: "pyval \<Rightarrow> pyval \<Rightarrow> error + bool" where
  "py_lt (PInt a) (PInt b) = Inr (a < b)"
| "py_lt (PInt a) (PBool b) = Inr (a < (if b then 1 else 0))"
| "py_lt (PBool a) (PInt b) = Inr ((if a then 1 else 0) < b)"
| "py_lt (PBool a) (PBool b) = Inr (\<not> a \<and> b)"
| "py_lt (PStr a) (PStr b) = Inr (a < b)"
| "py_lt (PDatetime (Naive a)) (PDatetime (Naive b)) = Inr (a < b)"
| "py_lt (PDatetime (Aware a)) (PDatetime (Aware b)) = Inr (a < b)"
| "py_lt _ _ = Inl TypeError"

text \<open>
  \<open>sorted(xs, key=f)\<close> computes every key first, then sorts with \<open><\<close> on the keys.
  The sort is stable and raises when a comparison raises. It is modelled as a stable
  insertion sort: an element moves behind the elements that are smaller than it.
\<close>

fun py_insort :: "(pyval \<times> 'a) \<Rightarrow> (pyval \<times> 'a) list \<Rightarrow> error + (pyval \<times> 'a) list" where
  "py_insort x [] = Inr [x]"
| "py_insort x (y # ys) =
     (case py_lt (fst y) (fst x) of
        Inl e \<Rightarrow> Inl e
      | Inr smaller \<Rightarrow>
          if smaller then (case py_insort x ys of Inl e \<Rightarrow> Inl e | Inr zs \<Rightarrow> Inr (y # zs))
          else Inr (x # y # ys))"

fun py_sort :: "(pyval \<times> 'a) list \<Rightarrow> error + (pyval \<times> 'a) list" where
  "py_sort [] = Inr []"
| "py_sort (x # xs) = (case py_sort xs of Inl e \<Rightarrow> Inl e | Inr ys \<Rightarrow> py_insort x ys)"

text \<open>
  \<open>min(xs, key=f)\<close> and \<open>max(xs, key=f)\<close> keep the first best element and compare
  every later one with it (\<open>key(x) < key(best)\<close>, \<open>key(x) > key(best)\<close>).
\<close>

fun min_by :: "(pyval \<times> 'a) \<Rightarrow> (pyval \<times> 'a) list \<Rightarrow> error + (pyval \<times> 'a)" where
  "min_by best [] = Inr best"
| "min_by best (x # xs) =
     (case py_lt (fst x) (fst best) of
        Inl e \<Rightarrow> Inl e
      | Inr b \<Rightarrow> min_by (if b then x else best) xs)"

fun max_by :: "(pyval \<times> 'a) \<Rightarrow> (pyval \<times> 'a) list \<Rightarrow> error + (pyval \<times> 'a)" where
  "max_by best [] = Inr best"
| "max_by best (x # xs) =
     (case py_lt (fst best) (fst x) of
        Inl e \<Rightarrow> Inl e
      | Inr b \<Rightarrow> max_by (if b then x else best) xs)"

text \<open>
  The key \<open>lambda e: e.get("timestamp", datetime.now())\<close>: the default argument is
  evaluated for every event, so the \<open>k\<close>-th key computed reads the clock the \<open>k\<close>-th time.
\<close>

definition timestamp_keys :: "env \<Rightarrow> nat \<Rightarrow> pydict list \<Rightarrow> (pyval \<times> pydict) list" where
  "timestamp_keys env start events =
     map (\<lambda>(k, e). (dict_get_default e ''timestamp'' (PDatetime (datetime_now env k)), e))
         (enumerate start events)"

text \<open>The text of a string value (empty for any other value).\<close>

definition text_of :: "pyval \<Rightarrow> string" where
  "text_of v = (case v of PStr s \<Rightarrow> s | _ \<Rightarrow> [])"

section \<open>Anomalies and red flags\<close>

text \<open>A red flag or an anomaly: a dictionary with the keys \<open>type\<close>, \<open>description\<close>, \<open>severity\<close>.\<close>

definition finding :: "string \<Rightarrow> string \<Rightarrow> string \<Rightarrow> pydict" where
  "finding type text severity =
     [(''type'', PStr type), (''description'', PStr text), (''severity'', PStr severity)]"

text \<open>\<open>sorted(events, key=lambda e: e.get("timestamp", datetime.now()))\<close>.\<close>

definition sorted_by_timestamp :: "env \<Rightarrow> pydict list \<Rightarrow> error + pydict list" where
  "sorted_by_timestamp env events =
     (case py_sort (timestamp_keys env 0 events) of
        Inl e \<Rightarrow> Inl e
      | Inr sorted_pairs \<Rightarrow> Inr (map snd sorted_pairs))"

text \<open>
  \<open>agent_8_sanity_flag._detect_anomalies\<close>. \<open>avg_gap = sum(gaps) / len(gaps)\<close> is
  float arithmetic.
\<close>

definition detect_anomalies :: "env \<Rightarrow> pydict list \<Rightarrow> error + pydict list" where
  "detect_anomalies env events =
     (if length events < 2 then Inr []
      else
        (case sorted_by_timestamp env events of
           Inl e \<Rightarrow> Inl e
         | Inr sorted_events \<Rightarrow>
             (let gaps = consecutive_gaps env sorted_events
              in if gaps \<noteq> [] then
                   (let avg_gap = float_div env (float_sum env gaps) (length gaps)
                    in if avg_gap < 5 then
                         Inr [finding ''rapid_fire_events''
                                ''Events occurring in rapid succession'' ''medium'']
                       else if avg_gap > 3600 then
                         Inr [finding ''long_inactivity''
                                ''Long periods of inactivity detected'' ''low'']
                       else Inr [])
                 else Inr [])))"

text \<open>
  \<open>agent_8_sanity_flag._detect_red_flags\<close>. \<open>min\<close> reads the clock once per event,
  \<open>max\<close> after it reads it again once per event.
\<close>

definition perfect_solution_flag :: "pydict list \<Rightarrow> pydict list \<Rightarrow> pydict list" where
  "perfect_solution_flag events submissions =
     (if submissions \<noteq> [] then
        (let perfect_submissions =
               filter (\<lambda>s. dict_get_default s ''score'' (PInt 0) = PInt 100) submissions;
             modifications = filter is_code_modified events
         in if perfect_submissions \<noteq> [] \<and> length modifications < 3 then
              [finding ''perfect_solution_no_modifications''
                 ''Perfect solution with minimal code modifications'' ''high'']
            else [])
      else [])"

definition rapid_completion_flag :: "env \<Rightarrow> pydict list \<Rightarrow> error + pydict list" where
  "rapid_completion_flag env events =
     (case timestamp_keys env 0 events of
        [] \<Rightarrow> Inr []
      | k # ks \<Rightarrow>
          (case min_by k ks of
             Inl e \<Rightarrow> Inl e
           | Inr first_event \<Rightarrow>
               (case timestamp_keys env (length events) events of
                  [] \<Rightarrow> Inr []
                | l # ls \<Rightarrow>
                    (case max_by l ls of
                       Inl e \<Rightarrow> Inl e
                     | Inr last_event \<Rightarrow>
                         (case time_diff env (dict_get (snd first_event) ''timestamp'')
                                 (dict_get (snd last_event) ''timestamp'') of
                            None \<Rightarrow> Inr []
                          | Some d \<Rightarrow>
                              if d \<noteq> 0 \<and> d < 300 then
                                (let modifications = filter is_code_modified events
                                 in if length modifications > 10 then
                                      Inr [finding ''rapid_completion''
                                             ''Rapid code completion with many modifications''
                                             ''medium'']
                                    else Inr [])
                              else Inr [])))))"

definition only_copies_flag :: "pydict list \<Rightarrow> pydict list" where
  "only_copies_flag events =
     (let copies = filter is_copy events;
          modifications = filter is_code_modified events
      in if copies \<noteq> [] \<and> length modifications = 0 then
           [finding ''no_modifications_only_copies''
              ''No code modifications, only copy-paste operations'' ''high'']
         else [])"

definition detect_red_flags :: "env \<Rightarrow> pydict list \<Rightarrow> pydict list \<Rightarrow> error + pydict list" where
  "detect_red_flags env events submissions =
     and_then (Inr (perfect_solution_flag events submissions))
       (and_then (rapid_completion_flag env events) (Inr (only_copies_flag events)))"

section \<open>Plagiarism\<close>

record plagiarism_analysis =
  suspicious :: bool
  patterns :: "string list"
  confidence :: int

text \<open>
  \<open>len(set(codes))\<close>: building the set hashes every element, which raises on a
  dictionary; \<open>True\<close> and \<open>1\<close> are the same element of a set.
\<close>

definition hashable :: "pyval \<Rightarrow> bool" where
  "hashable v = (case v of PDict d \<Rightarrow> False | _ \<Rightarrow> True)"

definition hash_key :: "pyval \<Rightarrow> pyval" where
  "hash_key v = (case v of PBool b \<Rightarrow> PInt (if b then 1 else 0) | _ \<Rightarrow> v)"

definition set_len :: "pyval list \<Rightarrow> error + nat" where
  "set_len vs =
     (if list_all hashable vs then Inr (length (remdups (map hash_key vs))) else Inl TypeError)"

text \<open>
  \<open>x in c\<close>: a substring test when \<open>c\<close> is a string (then \<open>x\<close> must be a string), a
  key test when \<open>c\<close> is a dictionary (then \<open>x\<close> must be hashable); other containers
  raise.
\<close>

definition py_in :: "pyval \<Rightarrow> pyval \<Rightarrow> error + bool" where
  "py_in x c =
     (case c of
        PStr t \<Rightarrow> (case x of PStr s \<Rightarrow> Inr (sublist s t) | _ \<Rightarrow> Inl TypeError)
      | PDict d \<Rightarrow>
          (if hashable x then Inr (case x of PStr s \<Rightarrow> s \<in> set (map fst d) | _ \<Rightarrow> False)
           else Inl TypeError)
      | _ \<Rightarrow> Inl TypeError)"

text \<open>The inner loop over the responses, left at the first match (\<open>break\<close>).\<close>

fun matches_response :: "pyval \<Rightarrow> pydict list \<Rightarrow> error + bool" where
  "matches_response copied_code [] = Inr False"
| "matches_response copied_code (response # responses) =
     (let response_text = dict_get_default response ''response_text'' (PStr [])
      in if truthy copied_code \<and> truthy response_text then
           (case py_in copied_code response_text of
              Inl e \<Rightarrow> Inl e
            | Inr found \<Rightarrow> if found then Inr True else matches_response copied_code responses)
         else matches_response copied_code responses)"

fun check_copies ::
  "pydict list \<Rightarrow> pydict list \<Rightarrow> plagiarism_analysis \<Rightarrow> error + plagiarism_analysis" where
  "check_copies [] responses analysis = Inr analysis"
| "check_copies (copy_event # copies) responses analysis =
     (case matches_response (dict_get_default copy_event ''code_snippet'' (PStr [])) responses of
        Inl e \<Rightarrow> Inl e
      | Inr found \<Rightarrow>
          check_copies copies responses
            (if found then
               analysis\<lparr>suspicious := True,
                        patterns := patterns analysis @ [''code_matches_ai_response''],
                        confidence := max (confidence analysis) 70\<rparr>
             else analysis))"

definition identical_submissions_check ::
  "pydict list \<Rightarrow> plagiarism_analysis \<Rightarrow> error + plagiarism_analysis" where
  "identical_submissions_check submissions analysis =
     (if length submissions > 1 then
        (let codes = map (\<lambda>s. dict_get_default s ''code'' (PStr []))
                       (filter (\<lambda>s. truthy (dict_get s ''code'')) submissions)
         in case set_len codes of
              Inl e \<Rightarrow> Inl e
            | Inr n \<Rightarrow>
                if n < length codes then
                  Inr (analysis\<lparr>suspicious := True,
                                patterns := patterns analysis @ [''identical_submissions''],
                                confidence := 80\<rparr>)
                else Inr analysis)
      else Inr analysis)"

definition analyze_plagiarism :: "pydict list \<Rightarrow> pydict list \<Rightarrow> error + plagiarism_analysis" where
  "analyze_plagiarism submissions events =
     (case identical_submissions_check submissions
             \<lparr>suspicious = False, patterns = [], confidence = 0\<rparr> of
        Inl e \<Rightarrow> Inl e
      | Inr analysis \<Rightarrow>
          (let copies = filter is_copy events;
               responses = filter is_response_received events
           in if copies \<noteq> [] \<and> responses \<noteq> [] then check_copies copies responses analysis
              else Inr analysis))"

section \<open>Behaviour score and patterns\<close>

text \<open>\<open>int(x)\<close> on a number with a fraction truncates towards zero.\<close>

definition py_int :: "rat \<Rightarrow> int" where
  "py_int x = (if x < 0 then \<lceil>x\<rceil> else \<lfloor>x\<rfloor>)"

text \<open>
  \<open>agent_7_executor._calculate_behavior_score\<close>:
  \<^verbatim>\<open>
    if not interactions: return 50
    if prompts:
        ratio = len(modifications) / len(prompts)
        score = min(100, int(ratio * 50 + 50))
    else: score = 50
  \<close>
  The arithmetic is exact (rational), not binary floating point.
\<close>

definition calculate_behavior_score :: "pydict list \<Rightarrow> int" where
  "calculate_behavior_score interactions =
     (if interactions = [] then 50
      else
        (let prompts = filter is_prompt_sent interactions;
             modifications = filter is_code_modified interactions
         in if prompts \<noteq> [] then
              (let ratio = (of_nat (length modifications) :: rat) / of_nat (length prompts)
               in min 100 (py_int (ratio * 50 + 50)))
            else 50))"

text \<open>The score as the specification words it, with \<open>round\<close> to the nearest integer.\<close>

definition spec_behavior_score :: "nat \<Rightarrow> nat \<Rightarrow> int" where
  "spec_behavior_score modifications prompts =
     (if prompts > 0 then min 100 (round ((of_nat modifications :: rat) / of_nat prompts * 50 + 50))
      else 50)"

text \<open>\<open>agent_7_executor._events_close_in_time\<close>; the threshold defaults to 30 seconds.\<close>

definition events_close_in_time :: "env \<Rightarrow> pydict \<Rightarrow> pydict \<Rightarrow> rat \<Rightarrow> bool" where
  "events_close_in_time env event1 event2 threshold_seconds =
     (case time_diff env (dict_get event1 ''timestamp'') (dict_get event2 ''timestamp'') of
        None \<Rightarrow> False
      | Some d \<Rightarrow> 0 < d \<and> d < threshold_seconds)"

record copy_paste_pattern =
  copyTimestamp :: pyval
  pasteTimestamp :: pyval
  timeDiff :: "rat option"

record timing_patterns =
  averageGap :: rat
  medianGap :: rat
  totalEvents :: nat

record prompt_categories =
  solution_request :: nat
  explanation_request :: nat
  code_review :: nat
  other :: nat

record extracted_patterns =
  copyPastePatterns :: "copy_paste_pattern list"
  timingPatterns :: "timing_patterns option"
  promptPatterns :: prompt_categories

text \<open>
  The copy-paste loop of \<open>_extract_patterns\<close>: \<open>next(...)\<close> takes the first paste event
  close in time; \<open>if paste:\<close> holds for a dictionary that is not empty.
\<close>

definition copy_paste_entry :: "env \<Rightarrow> pydict list \<Rightarrow> pydict \<Rightarrow> copy_paste_pattern list" where
  "copy_paste_entry env paste_events copy_event =
     (case find (\<lambda>p. events_close_in_time env copy_event p 30) paste_events of
        None \<Rightarrow> []
      | Some paste \<Rightarrow>
          if paste \<noteq> [] then
            [\<lparr>copyTimestamp = dict_get_default copy_event ''timestamp'' (PStr []),
              pasteTimestamp = dict_get_default paste ''timestamp'' (PStr []),
              timeDiff = time_diff env (dict_get copy_event ''timestamp'')
                           (dict_get paste ''timestamp'')\<rparr>]
          else [])"

definition copy_paste_patterns :: "env \<Rightarrow> pydict list \<Rightarrow> copy_paste_pattern list" where
  "copy_paste_patterns env interactions =
     (let copy_events = filter is_copy interactions;
          paste_events = filter is_paste interactions
      in concat (map (copy_paste_entry env paste_events) copy_events))"

text \<open>The timing section; \<open>None\<close> stands for the empty dictionary it leaves otherwise.\<close>

definition timing_of :: "env \<Rightarrow> pydict list \<Rightarrow> timing_patterns option" where
  "timing_of env interactions =
     (if length interactions \<ge> 2 then
        (let gaps = consecutive_gaps env interactions
         in if gaps \<noteq> [] then
              Some \<lparr>averageGap = float_div env (float_sum env gaps) (length gaps),
                    medianGap = sort gaps ! (length gaps div 2),
                    totalEvents = length interactions\<rparr>
            else None)
      else None)"

text \<open>The prompt categories, first matching bucket first.\<close>

fun categorize :: "pydict list \<Rightarrow> prompt_categories \<Rightarrow> error + prompt_categories" where
  "categorize [] pattern_categories = Inr pattern_categories"
| "categorize (prompt # prompts) pattern_categories =
     (case py_lower (dict_get_default prompt ''prompt_text'' (PStr [])) of
        Inl e \<Rightarrow> Inl e
      | Inr prompt_text \<Rightarrow>
          categorize prompts
            (if re_search_alt [[''solve''], [''complete''], [''write'', ''code''], [''implement'']]
                  prompt_text then
               pattern_categories\<lparr>solution_request := solution_request pattern_categories + 1\<rparr>
             else if re_search_alt [[''explain''], [''why''], [''how'', ''work'']] prompt_text then
               pattern_categories\<lparr>explanation_request := explanation_request pattern_categories + 1\<rparr>
             else if re_search_alt [[''review''], [''check''], [''improve'']] prompt_text then
               pattern_categories\<lparr>code_review := code_review pattern_categories + 1\<rparr>
             else pattern_categories\<lparr>other := other pattern_categories + 1\<rparr>))"

definition extract_patterns :: "env \<Rightarrow> pydict list \<Rightarrow> error + extracted_patterns" where
  "extract_patterns env interactions =
     (case categorize (filter is_prompt_sent interactions)
             \<lparr>solution_request = 0, explanation_request = 0, code_review = 0, other = 0\<rparr> of
        Inl e \<Rightarrow> Inl e
      | Inr pattern_categories \<Rightarrow>
          Inr \<lparr>copyPastePatterns = copy_paste_patterns env interactions,
                timingPatterns = timing_of env interactions,
                promptPatterns = pattern_categories\<rparr>)"

section \<open>A sample environment\<close>

text \<open>
  A concrete environment for evaluating the functions: a parser that knows four
  ISO timestamps of one morning (as naive datetimes, in microseconds after the
  first), fixed renderings, a decoder that rejects every string, a clock that
  advances by a microsecond per reading, and sums and quotients without rounding
  (the sample gaps are whole seconds, which floats add and divide exactly).
\<close>

definition sample_env :: env where
  "sample_env =
     \<lparr>dateutil_parse =
        map_of [(''2024-01-01T10:00:00'', Naive 0),
                (''2024-01-01T10:00:02'', Naive 2000000),
                (''2024-01-01T10:00:10'', Naive 10000000),
                (''2024-01-01T12:30:00'', Naive 9000000000)],
      isoformat = (\<lambda>d. ''datetime''),
      str_other = (\<lambda>v. ''object''),
      json_loads = (\<lambda>s. None),
      clock = (\<lambda>k. 86400000000 + int k),
      float_sum = sum_list,
      float_div = (\<lambda>s n. s / of_nat n)\<rparr>"

section \<open>Specification predicates for the plagiarism analysis\<close>

text \<open>
  A text field holds a string, or is absent or null. Two submissions share their
  code text when two positions of the list hold the same non-empty string as
  \<open>code\<close>. A copy matches a response when the non-empty snippet of some copy event
  occurs in the text of some \<open>response_received\<close> event.
\<close>

definition is_text :: "pyval \<Rightarrow> bool" where
  "is_text v = (case v of PStr s \<Rightarrow> True | PNone \<Rightarrow> True | _ \<Rightarrow> False)"

definition share_code_text :: "pydict list \<Rightarrow> bool" where
  "share_code_text submissions \<longleftrightarrow>
     (\<exists>i j s. i < j \<and> j < length submissions \<and> s \<noteq> []
        \<and> dict_get (submissions ! i) ''code'' = PStr s
        \<and> dict_get (submissions ! j) ''code'' = PStr s)"

definition copy_matches_response :: "pydict list \<Rightarrow> bool" where
  "copy_matches_response events \<longleftrightarrow>
     (\<exists>c \<in> set events. \<exists>r \<in> set events. \<exists>s t.
        is_copy c \<and> is_response_received r \<and> s \<noteq> []
        \<and> dict_get c ''code_snippet'' = PStr s
        \<and> dict_get r ''response_text'' = PStr t \<and> sublist s t)"

text \<open>
  The two checks on arbitrary values. The first triggers when two submissions hold
  codes that are true in a condition and equal as set elements; the second when,
  for some copy event and some \<open>response_received\<close> event, snippet and response
  text are true in a condition and \<open>snippet in response_text\<close> is true.
\<close>

definition duplicate_codes :: "pydict list \<Rightarrow> bool" where
  "duplicate_codes submissions \<longleftrightarrow>
     (\<exists>i j. i < j \<and> j < length submissions
        \<and> truthy (dict_get (submissions ! i) ''code'')
        \<and> truthy (dict_get (submissions ! j) ''code'')
        \<and> hash_key (dict_get (submissions ! i) ''code'')
            = hash_key (dict_get (submissions ! j) ''code''))"

definition snippet_in_response :: "pydict list \<Rightarrow> bool" where
  "snippet_in_response events \<longleftrightarrow>
     (\<exists>c \<in> set events. \<exists>r \<in> set events.
        is_copy c \<and> is_response_received r
        \<and> truthy (dict_get c ''code_snippet'') \<and> truthy (dict_get r ''response_text'')
        \<and> py_in (dict_get c ''code_snippet'') (dict_get r ''response_text'') = Inr True)"

text \<open>The two matches, between a list of copy events and a list of responses.\<close>

definition any_in :: "pydict list \<Rightarrow> pydict list \<Rightarrow> bool" where
  "any_in copies responses \<longleftrightarrow>
     (\<exists>c \<in> set copies. \<exists>r \<in> set responses.
        truthy (dict_get c ''code_snippet'') \<and> truthy (dict_get r ''response_text'')
        \<and> py_in (dict_get c ''code_snippet'') (dict_get r ''response_text'') = Inr True)"

definition any_match :: "pydict list \<Rightarrow> pydict list \<Rightarrow> bool" where
  "any_match copies responses \<longleftrightarrow>
     (\<exists>c \<in> set copies. \<exists>r \<in> set responses. \<exists>s t. s \<noteq> []
        \<and> dict_get c ''code_snippet'' = PStr s
        \<and> dict_get r ''response_text'' = PStr t \<and> sublist s t)"

section \<open>Sample inputs\<close>

text \<open>Twenty-five prompt events that carry no prompt text, and twenty-five that do.\<close>

definition prompts_without_text :: "pydict list" where
  "prompts_without_text = replicate 25 [(''event_type'', PStr ''prompt_sent'')]"

definition prompts_with_text :: "pydict list" where
  "prompts_with_text =
     replicate 25 [(''event_type'', PStr ''prompt_sent''),
                   (''prompt_text'', PStr ''how do I sort a list'')]"

text \<open>One modification and three prompts.\<close>

definition one_modification_three_prompts :: "pydict list" where
  "one_modification_three_prompts =
     [[(''event_type'', PStr ''code_modified'')],
      [(''event_type'', PStr ''prompt_sent'')],
      [(''event_type'', PStr ''prompt_sent'')],
      [(''event_type'', PStr ''prompt_sent'')]]"



text \<open>
  Events of one session, out of time order, one of them without a timestamp, and
  the timeline built from them.
\<close>

definition sample_interactions :: "pydict list" where
  "sample_interactions =
     [[(''event_type'', PStr ''prompt_sent''), (''prompt_text'', PStr ''why does this loop stop''),
       (''timestamp'', PStr ''2024-01-01T10:00:10'')],
      [(''event_type'', PStr ''code_modified''), (''timestamp'', PStr ''2024-01-01T10:00:00'')]]"

definition sample_file_operations :: "pydict list" where
  "sample_file_operations =
     [[(''event_type'', PStr ''file_created''),
       (''metadata'', PDict [(''filePath'', PStr ''main.py'')]),
       (''timestamp'', PStr ''2024-01-01T10:00:02'')]]"

definition sample_terminal_events :: "pydict list" where
  "sample_terminal_events =
     [[(''event_type'', PStr ''command_executed''),
       (''metadata'', PDict [(''command'', PStr ''pytest'')])]]"

definition sample_timeline :: "timeline_entry list" where
  "sample_timeline =
     [\<lparr>entry_type = PStr ''command_executed'', timestamp = [], description = PStr ''Ran: pytest''\<rparr>,
      \<lparr>entry_type = PStr ''code_modified'', timestamp = ''2024-01-01T10:00:00'',
        description = PStr ''Modified code''\<rparr>,
      \<lparr>entry_type = PStr ''file_created'', timestamp = ''2024-01-01T10:00:02'',
        description = PStr ''Created file: main.py''\<rparr>,
      \<lparr>entry_type = PStr ''prompt_sent'', timestamp = ''2024-01-01T10:00:10'',
        description = PStr ''Asked: why does this loop stop''\<rparr>]"

text \<open>
  Copy and paste events: a paste before any copy, a copy followed by two pastes two
  seconds later, a later copy, and a paste whose timestamp does not parse; and the
  one copy-paste pattern they hold.
\<close>

definition copy_and_pastes :: "pydict list" where
  "copy_and_pastes =
     [[(''event_type'', PStr ''code_pasted''), (''timestamp'', PStr ''2024-01-01T10:00:00'')],
      [(''event_type'', PStr ''code_copied''), (''timestamp'', PStr ''2024-01-01T10:00:00'')],
      [(''event_type'', PStr ''code_pasted''), (''timestamp'', PStr ''2024-01-01T10:00:02'')],
      [(''event_type'', PStr ''code_pasted''), (''timestamp'', PStr ''2024-01-01T10:00:02'')],
      [(''event_type'', PStr ''code_copied''), (''timestamp'', PStr ''2024-01-01T12:30:00'')],
      [(''event_type'', PStr ''code_pasted''), (''timestamp'', PStr ''not a date'')]]"

definition sample_pattern :: copy_paste_pattern where
  "sample_pattern =
     \<lparr>copyTimestamp = PStr ''2024-01-01T10:00:00'',
      pasteTimestamp = PStr ''2024-01-01T10:00:02'',
      timeDiff = Some 2\<rparr>"

text \<open>
  Two events two seconds apart; the same two events followed by an event that has
  no timestamp; and two events of which only the first has a timestamp.
\<close>

definition two_timed_events :: "pydict list" where
  "two_timed_events =
     [[(''event_type'', PStr ''prompt_sent''), (''timestamp'', PStr ''2024-01-01T10:00:00'')],
      [(''event_type'', PStr ''code_modified''), (''timestamp'', PStr ''2024-01-01T10:00:02'')]]"

definition with_untimed_event :: "pydict list" where
  "with_untimed_event = two_timed_events @ [[(''event_type'', PStr ''code_modified'')]]"

definition mixed_timestamps :: "pydict list" where
  "mixed_timestamps =
     [[(''event_type'', PStr ''prompt_sent''), (''timestamp'', PStr ''2024-01-01T10:00:00'')],
      [(''event_type'', PStr ''prompt_sent'')]]"

text \<open>
  Submissions of which two have the same code; two submissions with the same code
  and a third whose code is a dictionary; a copied snippet and the response it
  comes from.
\<close>

definition twin_submissions :: "pydict list" where
  "twin_submissions =
     [[(''code'', PStr ''print(1)''), (''score'', PInt 100)],
      [(''code'', PStr ''print(2)'')],
      [(''code'', PStr ''print(1)'')]]"

definition dict_code_submissions :: "pydict list" where
  "dict_code_submissions =
     [[(''code'', PStr ''x'')],
      [(''code'', PStr ''x'')],
      [(''code'', PDict [(''a'', PInt 1)])]]"

definition copied_from_response :: "pydict list" where
  "copied_from_response =
     [[(''event_type'', PStr ''response_received''), (''response_text'', PStr ''use print(1) here'')],
      [(''event_type'', PStr ''code_copied''), (''code_snippet'', PStr ''print(1)'')]]"

section \<open>Properties\<close>

lemma fold_add_violation:
  "fold add_violation vs acc = acc + sum_list (map spec_severity_weight vs)"
proof (induction vs arbitrary: acc)
  case Nil
  show ?case by simp
next
  case (Cons v vs)
  have step: "add_violation v acc = acc + spec_severity_weight v"
    by (simp add: add_violation_def spec_severity_weight_def dict_get_default_def
        split: option.splits pyval.splits)
  show ?case by (simp add: Cons.IH step)
qed

lemma spec_severity_weight_pos: "0 < spec_severity_weight v"
  by (simp add: spec_severity_weight_def split: option.splits pyval.splits)

lemma sum_weights_nonneg: "0 \<le> sum_list (map spec_severity_weight vs)"
  by (induction vs) (simp_all add: less_imp_le spec_severity_weight_pos)

text \<open>
  C1. For every list of violations the watch-mode risk score is
  \<open>min(100, sum of the severity weights)\<close>, with weight 30 for \<open>high\<close>, 15 for
  \<open>medium\<close> and 5 for any other severity, the cap applied once after the sum;
  the score lies in \<open>[0, 100]\<close>.
\<close>

theorem watcher_risk_score_formula:
  "watcher_calculate_risk_score violations interactions
     = min 100 (sum_list (map spec_severity_weight violations))
   \<and> 0 \<le> watcher_calculate_risk_score violations interactions
   \<and> watcher_calculate_risk_score violations interactions \<le> 100"
proof -
  have eq: "watcher_calculate_risk_score violations interactions
              = min 100 (sum_list (map spec_severity_weight violations))"
    by (simp add: watcher_calculate_risk_score_def fold_add_violation)
  have "0 \<le> sum_list (map spec_severity_weight violations)"
    by (rule sum_weights_nonneg)
  with eq show ?thesis by simp
qed

subsection \<open>Loops\<close>

lemma for_each_total:
  "(\<And>x. x \<in> set xs \<Longrightarrow> \<exists>ys. body x = Inr ys) \<Longrightarrow> \<exists>zs. for_each body xs = Inr zs"
proof (induction xs)
  case Nil
  show ?case by simp
next
  case (Cons x xs)
  obtain ys where ys: "body x = Inr ys" using Cons.prems by auto
  obtain zs where zs: "for_each body xs = Inr zs" using Cons by auto
  show ?case by (simp add: ys zs)
qed


subsection \<open>Flag-mode risk score\<close>

lemma flag_score_eq:
  "flag_calculate_risk_score violations events =
     min 100 (sum_list (map spec_severity_weight violations)
        + (if length (filter is_copy events) \<noteq> 0 \<and> length (filter is_code_modified events) \<noteq> 0
              \<and> (of_nat (length (filter is_copy events)) :: rat)
                  / of_nat (length (filter is_code_modified events)) > 2
           then 20 else 0)
        + (if length (filter is_prompt_sent events) > 20 then 15 else 0))"
  by (simp add: flag_calculate_risk_score_def Let_def fold_add_violation)

lemma solution_pattern_check_text:
  "dict_get p ''prompt_text'' = PStr s \<Longrightarrow> s \<noteq> [] \<Longrightarrow>
     solution_pattern_check env p =
       Inr (if matches_solution_patterns p
            then [violation ''high'' ''solution_request_pattern''
                    ''Candidate requested complete solution'' (timestamp_text env p)]
            else [])"
  by (auto simp add: solution_pattern_check_def matches_solution_patterns_def py_lower_def
        dict_get_def dict_get_default_def split: option.splits)

lemma violation_fields [simp]:
  "dict_get (violation sev ty text stamp) ''type'' = PStr ty"
  "dict_get (violation sev ty text stamp) ''severity'' = PStr sev"
  "violation_type (violation sev ty text stamp) = PStr ty"
  by (simp_all add: violation_def dict_get_def dict_get_default_def violation_type_def)

text \<open>
  C2, as amended. For every list of violations and every event list the flag-mode
  risk score is \<open>min(100, severity-weighted sum + bonuses)\<close>, the bonuses being 20
  when the copy count and the modification count are both nonzero and
  copies/modifications exceeds 2, and 15 when the \<open>prompt_sent\<close> count exceeds 20.
  An event list with 25 \<open>prompt_sent\<close> events, each carrying a non-empty prompt
  text, and no \<open>code_modified\<close> event gets the 15 of the prompt bonus (and no copy
  bonus), and the flag-mode detector returns a \<open>suspicious_timing\<close> violation of
  severity \<open>medium\<close> for it.
\<close>

theorem flag_risk_score_formula:
  "flag_calculate_risk_score violations events =
     min 100 (sum_list (map spec_severity_weight violations)
        + (if length (filter is_copy events) \<noteq> 0 \<and> length (filter is_code_modified events) \<noteq> 0
              \<and> (of_nat (length (filter is_copy events)) :: rat)
                  / of_nat (length (filter is_code_modified events)) > 2
           then 20 else 0)
        + (if length (filter is_prompt_sent events) > 20 then 15 else 0))
   \<and> (length (filter is_prompt_sent events) = 25
        \<and> filter is_code_modified events = []
        \<and> (\<forall>e \<in> set events. is_prompt_sent e \<longrightarrow>
               (\<exists>s. s \<noteq> [] \<and> dict_get e ''prompt_text'' = PStr s))
       \<longrightarrow> flag_calculate_risk_score violations events
             = min 100 (sum_list (map spec_severity_weight violations) + 15)
           \<and> (\<exists>vs. flag_detect_violations env events = Inr vs
                 \<and> (\<exists>v \<in> set vs. dict_get v ''type'' = PStr ''suspicious_timing''
                                  \<and> dict_get v ''severity'' = PStr ''medium'')))"
proof (intro conjI impI)
  show "flag_calculate_risk_score violations events =
     min 100 (sum_list (map spec_severity_weight violations)
        + (if length (filter is_copy events) \<noteq> 0 \<and> length (filter is_code_modified events) \<noteq> 0
              \<and> (of_nat (length (filter is_copy events)) :: rat)
                  / of_nat (length (filter is_code_modified events)) > 2
           then 20 else 0)
        + (if length (filter is_prompt_sent events) > 20 then 15 else 0))"
    by (rule flag_score_eq)
next
  assume h: "length (filter is_prompt_sent events) = 25
        \<and> filter is_code_modified events = []
        \<and> (\<forall>e \<in> set events. is_prompt_sent e \<longrightarrow>
               (\<exists>s. s \<noteq> [] \<and> dict_get e ''prompt_text'' = PStr s))"
  then show "flag_calculate_risk_score violations events
             = min 100 (sum_list (map spec_severity_weight violations) + 15)"
    by (simp add: flag_score_eq)
next
  assume h: "length (filter is_prompt_sent events) = 25
        \<and> filter is_code_modified events = []
        \<and> (\<forall>e \<in> set events. is_prompt_sent e \<longrightarrow>
               (\<exists>s. s \<noteq> [] \<and> dict_get e ''prompt_text'' = PStr s))"
  have same: "filter has_prompt_text events = filter is_prompt_sent events"
    using h by (intro filter_cong) (auto simp add: has_prompt_text_def)
  have "\<exists>zs. for_each (solution_pattern_check env) (filter has_prompt_text events) = Inr zs"
  proof (rule for_each_total)
    fix x assume "x \<in> set (filter has_prompt_text events)"
    then have "x \<in> set events" "is_prompt_sent x" by (auto simp add: has_prompt_text_def)
    with h obtain s where "s \<noteq> []" "dict_get x ''prompt_text'' = PStr s" by blast
    then show "\<exists>ys. solution_pattern_check env x = Inr ys"
      by (simp add: solution_pattern_check_text)
  qed
  then obtain zs
    where zs: "for_each (solution_pattern_check env) (filter has_prompt_text events) = Inr zs"
    by blast
  show "\<exists>vs. flag_detect_violations env events = Inr vs
                 \<and> (\<exists>v \<in> set vs. dict_get v ''type'' = PStr ''suspicious_timing''
                                  \<and> dict_get v ''severity'' = PStr ''medium'')"
    using h zs same by (simp add: flag_detect_violations_def Let_def)
qed

text \<open>
  The amended statement at twenty-five prompts with text: the score of the events
  alone is 15 and the detector reports \<open>suspicious_timing\<close>.
\<close>

theorem flag_risk_score_formula_witness:
  "length (filter is_prompt_sent prompts_with_text) = 25
   \<and> filter is_code_modified prompts_with_text = []
   \<and> flag_calculate_risk_score [] prompts_with_text = 15
   \<and> (\<exists>vs. flag_detect_violations sample_env prompts_with_text = Inr vs
         \<and> (\<exists>v \<in> set vs. dict_get v ''type'' = PStr ''suspicious_timing''
                          \<and> dict_get v ''severity'' = PStr ''medium''))"
proof -
  have a: "length (filter is_prompt_sent prompts_with_text) = 25"
    by code_simp
  have b: "filter is_code_modified prompts_with_text = []"
    by code_simp
  have c: "\<forall>e \<in> set prompts_with_text. is_prompt_sent e \<longrightarrow>
             (\<exists>s. s \<noteq> [] \<and> dict_get e ''prompt_text'' = PStr s)"
    by (simp add: prompts_with_text_def dict_get_def dict_get_default_def)
  show ?thesis
    using flag_risk_score_formula [of "[]" prompts_with_text sample_env] a b c
    by simp
qed

text \<open>
  As first worded, C2 fails on twenty-five prompt events without prompt text: the
  score gets its 15, but the detector counts only prompts with text and reports
  nothing.
\<close>

theorem flag_suspicious_timing_counterexample:
  "length (filter is_prompt_sent prompts_without_text) = 25
   \<and> length (filter is_code_modified prompts_without_text) = 0
   \<and> flag_detect_violations sample_env prompts_without_text = Inr []
   \<and> flag_calculate_risk_score [] prompts_without_text = 15"
  by code_simp

subsection \<open>Behaviour score\<close>

lemma py_int_nonneg: "0 \<le> x \<Longrightarrow> py_int x = \<lfloor>x\<rfloor>"
  by (simp add: py_int_def)

text \<open>
  C7, as amended. The behaviour score is
  \<open>min(100, floor(modifications/prompts * 50 + 50))\<close> when the list has a
  \<open>prompt_sent\<close> event (\<open>int\<close> truncates, it does not round), and 50 when there
  is no \<open>prompt_sent\<close> event or no interaction at all.
\<close>

theorem behavior_score_truncates:
  "calculate_behavior_score interactions =
     (if filter is_prompt_sent interactions = [] then 50
      else min 100 (\<lfloor>(of_nat (length (filter is_code_modified interactions)) :: rat)
                        / of_nat (length (filter is_prompt_sent interactions)) * 50 + 50\<rfloor>))"
proof (cases "filter is_prompt_sent interactions = []")
  case True
  then show ?thesis by (simp add: calculate_behavior_score_def)
next
  case False
  then have ne: "interactions \<noteq> []" by auto
  have "0 \<le> (of_nat (length (filter is_code_modified interactions)) :: rat)
                  / of_nat (length (filter is_prompt_sent interactions)) * 50 + 50"
    by simp
  then show ?thesis using False ne
    by (simp add: calculate_behavior_score_def Let_def py_int_nonneg)
qed

text \<open>
  With one modification and three prompts the ratio gives 66.67: the code returns
  66, rounding gives 67.
\<close>

theorem behavior_score_round_counterexample:
  "length (filter is_code_modified one_modification_three_prompts) = 1
   \<and> length (filter is_prompt_sent one_modification_three_prompts) = 3
   \<and> calculate_behavior_score one_modification_three_prompts = 66
   \<and> spec_behavior_score 1 3 = 67"
  by code_simp

subsection \<open>Sanity checks\<close>

text \<open>
  C10. The aggregator returns exactly three checks, in the order
  \<open>violation_count\<close>, \<open>red_flags\<close>, \<open>anomalies\<close>, each with a status among
  \<open>passed\<close>, \<open>warning\<close>, \<open>failed\<close>; the \<open>red_flags\<close> check is \<open>failed\<close> exactly when
  some red flag has severity \<open>high\<close>, \<open>warning\<close> exactly when there are red flags and
  none is \<open>high\<close>, and \<open>passed\<close> exactly when there is no red flag.
\<close>

theorem generate_sanity_checks_shape:
  "map check (generate_sanity_checks violations red_flags anomalies)
     = [''violation_count'', ''red_flags'', ''anomalies'']
   \<and> set (map status (generate_sanity_checks violations red_flags anomalies))
       \<subseteq> {''passed'', ''warning'', ''failed''}
   \<and> (status (generate_sanity_checks violations red_flags anomalies ! 1) = ''failed''
        \<longleftrightarrow> (\<exists>f \<in> set red_flags. dict_get f ''severity'' = PStr ''high''))
   \<and> (status (generate_sanity_checks violations red_flags anomalies ! 1) = ''warning''
        \<longleftrightarrow> red_flags \<noteq> [] \<and> \<not> (\<exists>f \<in> set red_flags. dict_get f ''severity'' = PStr ''high''))
   \<and> (status (generate_sanity_checks violations red_flags anomalies ! 1) = ''passed''
        \<longleftrightarrow> red_flags = [])"
  by (auto simp add: generate_sanity_checks_def Let_def filter_empty_conv)

subsection \<open>Flag-mode violations\<close>








subsection \<open>Timeline\<close>

lemma for_each_length:
  assumes "\<And>x ys. body x = Inr ys \<Longrightarrow> length ys = 1"
  shows "for_each body xs = Inr zs \<Longrightarrow> length zs = length xs"
proof (induction xs arbitrary: zs)
  case Nil
  then show ?case by simp
next
  case (Cons x xs)
  then show ?case using assms by (auto split: sum.splits)
qed

lemma timeline_entry_of_length:
  "timeline_entry_of env describe x = Inr ys \<Longrightarrow> length ys = 1"
  by (auto simp add: timeline_entry_of_def split: sum.splits)

lemma and_then_Inr:
  "and_then a b = Inr zs \<longleftrightarrow> (\<exists>xs ys. a = Inr xs \<and> b = Inr ys \<and> zs = xs @ ys)"
  by (auto simp add: and_then_def split: sum.splits)

text \<open>
  C4. For every combination of interaction, file-operation and terminal-event
  lists, the timeline that the builder returns is sorted ascending by its
  timestamp string: every entry's timestamp is at most that of the next entry.
  The timeline has one entry for every event.
\<close>

theorem build_timeline_sorted:
  "build_timeline env interactions file_operations terminal_events = Inr timeline \<Longrightarrow>
     sorted (map timestamp timeline)
     \<and> (\<forall>k. Suc k < length timeline \<longrightarrow> timestamp (timeline ! k) \<le> timestamp (timeline ! Suc k))
     \<and> length timeline = length interactions + length file_operations + length terminal_events"
proof -
  assume r: "build_timeline env interactions file_operations terminal_events = Inr timeline"
  then obtain entries where
    e: "and_then (for_each (timeline_entry_of env get_event_description) interactions)
             (and_then (for_each (timeline_entry_of env get_file_event_description) file_operations)
                (for_each (timeline_entry_of env get_terminal_event_description) terminal_events))
        = Inr entries"
    and t: "timeline = sort_key timestamp entries"
    by (auto simp add: build_timeline_def split: sum.splits)
  from e obtain a b c where
    a: "for_each (timeline_entry_of env get_event_description) interactions = Inr a"
    and b: "for_each (timeline_entry_of env get_file_event_description) file_operations = Inr b"
    and c: "for_each (timeline_entry_of env get_terminal_event_description) terminal_events = Inr c"
    and abc: "entries = a @ b @ c"
    by (auto simp add: and_then_Inr)
  have len: "length entries = length interactions + length file_operations + length terminal_events"
    using for_each_length [OF timeline_entry_of_length a]
          for_each_length [OF timeline_entry_of_length b]
          for_each_length [OF timeline_entry_of_length c] abc
    by simp
  have s: "sorted (map timestamp timeline)"
    by (simp add: t)
  have adj: "\<forall>k. Suc k < length timeline \<longrightarrow> timestamp (timeline ! k) \<le> timestamp (timeline ! Suc k)"
  proof (intro allI impI)
    fix k assume k: "Suc k < length timeline"
    have "map timestamp timeline ! k \<le> map timestamp timeline ! Suc k"
      using s k by (intro sorted_nth_mono) simp_all
    then show "timestamp (timeline ! k) \<le> timestamp (timeline ! Suc k)"
      using k by simp
  qed
  show ?thesis using s adj len t by simp
qed

text \<open>The timeline of the sample session.\<close>

theorem build_timeline_sorted_witness:
  "build_timeline sample_env sample_interactions sample_file_operations sample_terminal_events
     = Inr sample_timeline
   \<and> sorted (map timestamp sample_timeline)
   \<and> length sample_timeline = 4"
proof -
  have r: "build_timeline sample_env sample_interactions sample_file_operations sample_terminal_events
     = Inr sample_timeline"
    by code_simp
  have l: "length sample_interactions + length sample_file_operations + length sample_terminal_events = 4"
    by code_simp
  show ?thesis
    using build_timeline_sorted [OF r] r l by simp
qed

subsection \<open>Time differences\<close>

lemma time_diff_Some:
  "time_diff env t1 t2 = Some d \<Longrightarrow>
     0 < d \<and> (\<exists>d1 d2. parse_if_str env t1 = Some (PDatetime d1)
                     \<and> parse_if_str env t2 = Some (PDatetime d2)
                     \<and> total_seconds_between d1 d2 = Some d)"
  by (auto simp add: time_diff_def split: option.splits pyval.splits if_splits)

lemma time_diff_not_later:
  "parse_if_str env t1 = Some (PDatetime d1) \<Longrightarrow> parse_if_str env t2 = Some (PDatetime d2) \<Longrightarrow>
   total_seconds_between d1 d2 = Some g \<Longrightarrow> g \<le> 0 \<Longrightarrow> time_diff env t1 t2 = None"
  by (simp add: time_diff_def)

lemma consecutive_gaps_map_filter:
  "consecutive_gaps env events =
     List.map_filter (\<lambda>(a, b). time_diff env (dict_get a ''timestamp'') (dict_get b ''timestamp''))
       (zip events (tl events))"
proof (induction env events rule: consecutive_gaps.induct)
  case (1 env a b rest)
  show ?case
  proof (cases "time_diff env (dict_get a ''timestamp'') (dict_get b ''timestamp'')")
    case None
    then show ?thesis using 1 by (simp add: List.map_filter_simps)
  next
    case (Some gap)
    then have "gap \<noteq> 0" using time_diff_Some [of env _ _ gap] by fastforce
    then show ?thesis using 1 Some by (simp add: List.map_filter_simps)
  qed
next
  case (2 env a)
  show ?case by (simp add: List.map_filter_simps)
next
  case (3 env)
  show ?case by (simp add: List.map_filter_simps)
qed

lemma copy_paste_entry_close:
  assumes "p \<in> set (copy_paste_entry env paste_events c)"
  shows "\<exists>q g. q \<in> set paste_events
            \<and> time_diff env (dict_get c ''timestamp'') (dict_get q ''timestamp'') = Some g
            \<and> 0 < g \<and> g < 30 \<and> timeDiff p = Some g"
proof (cases "find (\<lambda>q. events_close_in_time env c q 30) paste_events")
  case None
  then show ?thesis using assms by (simp add: copy_paste_entry_def)
next
  case (Some q)
  then have q: "q \<in> set paste_events" and close: "events_close_in_time env c q 30"
    by (auto simp add: find_Some_iff)
  have p: "timeDiff p = time_diff env (dict_get c ''timestamp'') (dict_get q ''timestamp'')"
    using assms Some by (auto simp add: copy_paste_entry_def split: if_splits)
  from close obtain g where
    "time_diff env (dict_get c ''timestamp'') (dict_get q ''timestamp'') = Some g" "0 < g" "g < 30"
    by (auto simp add: events_close_in_time_def split: option.splits)
  with q p show ?thesis by auto
qed

text \<open>
  C9. The time-difference helper returns a value only when both timestamps are (or
  parse to) datetimes and the second is strictly later than the first; a pair of
  equal or decreasing timestamps gives \<open>None\<close>, as an unparsable pair does. The gap
  list of the anomaly detector and of the timing pattern holds exactly the values
  the helper returns on consecutive pairs, so such pairs are left out alike. Every
  copy-paste pattern pairs a copy event with a paste event whose gap is strictly
  between 0 and 30 seconds.
\<close>

theorem time_diff_strictly_later:
  "(time_diff env t1 t2 = Some d \<longrightarrow>
      0 < d \<and> (\<exists>d1 d2. parse_if_str env t1 = Some (PDatetime d1)
                      \<and> parse_if_str env t2 = Some (PDatetime d2)
                      \<and> total_seconds_between d1 d2 = Some d))
   \<and> (parse_if_str env t3 = Some (PDatetime d3) \<and> parse_if_str env t4 = Some (PDatetime d4)
        \<and> total_seconds_between d3 d4 = Some g \<and> g \<le> 0
       \<longrightarrow> time_diff env t3 t4 = None)
   \<and> consecutive_gaps env events =
       List.map_filter (\<lambda>(a, b). time_diff env (dict_get a ''timestamp'') (dict_get b ''timestamp''))
         (zip events (tl events))
   \<and> (p \<in> set (copy_paste_patterns env interactions) \<longrightarrow>
        (\<exists>c q gap. c \<in> set interactions \<and> is_copy c \<and> q \<in> set interactions \<and> is_paste q
            \<and> time_diff env (dict_get c ''timestamp'') (dict_get q ''timestamp'') = Some gap
            \<and> 0 < gap \<and> gap < 30 \<and> timeDiff p = Some gap))"
proof (intro conjI impI)
  assume "time_diff env t1 t2 = Some d"
  then show "0 < d" using time_diff_Some by blast
next
  assume "time_diff env t1 t2 = Some d"
  then show "\<exists>d1 d2. parse_if_str env t1 = Some (PDatetime d1)
                      \<and> parse_if_str env t2 = Some (PDatetime d2)
                      \<and> total_seconds_between d1 d2 = Some d"
    using time_diff_Some by blast
next
  assume "parse_if_str env t3 = Some (PDatetime d3) \<and> parse_if_str env t4 = Some (PDatetime d4)
        \<and> total_seconds_between d3 d4 = Some g \<and> g \<le> 0"
  then show "time_diff env t3 t4 = None" using time_diff_not_later by blast
next
  show "consecutive_gaps env events =
       List.map_filter (\<lambda>(a, b). time_diff env (dict_get a ''timestamp'') (dict_get b ''timestamp''))
         (zip events (tl events))"
    by (rule consecutive_gaps_map_filter)
next
  assume "p \<in> set (copy_paste_patterns env interactions)"
  then obtain c where c: "c \<in> set (filter is_copy interactions)"
    and p: "p \<in> set (copy_paste_entry env (filter is_paste interactions) c)"
    by (auto simp add: copy_paste_patterns_def Let_def)
  from copy_paste_entry_close [OF p] obtain q gap where
    "q \<in> set (filter is_paste interactions)"
    "time_diff env (dict_get c ''timestamp'') (dict_get q ''timestamp'') = Some gap"
    "0 < gap" "gap < 30" "timeDiff p = Some gap"
    by blast
  with c show "\<exists>c q gap. c \<in> set interactions \<and> is_copy c \<and> q \<in> set interactions \<and> is_paste q
            \<and> time_diff env (dict_get c ''timestamp'') (dict_get q ''timestamp'') = Some gap
            \<and> 0 < gap \<and> gap < 30 \<and> timeDiff p = Some gap"
    by auto
qed

text \<open>
  Two seconds apart gives 2; equal timestamps give nothing; of the sample events
  only the first copy has a paste within 30 seconds.
\<close>

theorem time_diff_strictly_later_witness:
  "time_diff sample_env (PStr ''2024-01-01T10:00:00'') (PStr ''2024-01-01T10:00:02'') = Some 2
   \<and> time_diff sample_env (PStr ''2024-01-01T10:00:02'') (PStr ''2024-01-01T10:00:02'') = None
   \<and> consecutive_gaps sample_env copy_and_pastes = [2, 8998]
   \<and> copy_paste_patterns sample_env copy_and_pastes = [sample_pattern]
   \<and> (\<exists>c q gap. c \<in> set copy_and_pastes \<and> is_copy c \<and> q \<in> set copy_and_pastes \<and> is_paste q
        \<and> time_diff sample_env (dict_get c ''timestamp'') (dict_get q ''timestamp'') = Some gap
        \<and> 0 < gap \<and> gap < 30 \<and> timeDiff sample_pattern = Some gap)"
proof -
  have a: "time_diff sample_env (PStr ''2024-01-01T10:00:00'') (PStr ''2024-01-01T10:00:02'') = Some 2"
    by code_simp
  have b: "parse_if_str sample_env (PStr ''2024-01-01T10:00:02'') = Some (PDatetime (Naive 2000000))"
    by code_simp
  have c: "total_seconds_between (Naive 2000000) (Naive 2000000) = Some 0"
    by simp
  have d: "copy_paste_patterns sample_env copy_and_pastes = [sample_pattern]"
    by code_simp
  have e: "consecutive_gaps sample_env copy_and_pastes = [2, 8998]"
    by code_simp
  show ?thesis
    using time_diff_strictly_later
            [of sample_env "PStr ''2024-01-01T10:00:00''" "PStr ''2024-01-01T10:00:02''" 2
                "PStr ''2024-01-01T10:00:02''" "Naive 2000000"
                "PStr ''2024-01-01T10:00:02''" "Naive 2000000" 0
                copy_and_pastes sample_pattern copy_and_pastes]
          a b c d e
    by simp
qed

subsection \<open>Anomalies\<close>

lemma py_insort_strings:
  assumes "\<exists>s. k x = PStr s" "\<forall>e \<in> set ys. \<exists>s. k e = PStr s"
  shows "py_insort (k x, x) (map (\<lambda>e. (k e, e)) ys)
           = Inr (map (\<lambda>e. (k e, e)) (insort_key (\<lambda>e. text_of (k e)) x ys))"
  using assms
proof (induction ys)
  case Nil
  show ?case by simp
next
  case (Cons y ys)
  obtain a where a: "k x = PStr a" using Cons.prems by blast
  obtain b where b: "k y = PStr b" using Cons.prems by auto
  show ?case
  proof (cases "b < a")
    case True
    then have "\<not> a \<le> b" by simp
    moreover have "py_insort (k x, x) (map (\<lambda>e. (k e, e)) ys)
           = Inr (map (\<lambda>e. (k e, e)) (insort_key (\<lambda>e. text_of (k e)) x ys))"
      using Cons by simp
    ultimately show ?thesis using True a b by (simp add: text_of_def)
  next
    case False
    then have "a \<le> b" by simp
    then show ?thesis using False a b by (simp add: text_of_def)
  qed
qed

lemma py_sort_strings:
  "\<forall>e \<in> set es. \<exists>s. k e = PStr s \<Longrightarrow>
     py_sort (map (\<lambda>e. (k e, e)) es)
       = Inr (map (\<lambda>e. (k e, e)) (sort_key (\<lambda>e. text_of (k e)) es))"
proof (induction es)
  case Nil
  show ?case by simp
next
  case (Cons x xs)
  have ih: "py_sort (map (\<lambda>e. (k e, e)) xs)
       = Inr (map (\<lambda>e. (k e, e)) (sort_key (\<lambda>e. text_of (k e)) xs))"
    using Cons by simp
  have "py_insort (k x, x) (map (\<lambda>e. (k e, e)) (sort_key (\<lambda>e. text_of (k e)) xs))
           = Inr (map (\<lambda>e. (k e, e))
                    (insort_key (\<lambda>e. text_of (k e)) x (sort_key (\<lambda>e. text_of (k e)) xs)))"
    using Cons.prems by (intro py_insort_strings) auto
  then show ?case by (simp add: ih)
qed

lemma timestamp_keys_present:
  "\<forall>e \<in> set events. \<exists>s. dict_get e ''timestamp'' = PStr s \<Longrightarrow>
     timestamp_keys env n events = map (\<lambda>e. (dict_get e ''timestamp'', e)) events"
proof (induction events arbitrary: n)
  case Nil
  show ?case by (simp add: timestamp_keys_def)
next
  case (Cons e es)
  obtain s where s: "dict_get e ''timestamp'' = PStr s" using Cons.prems by auto
  have d: "dict_get_default e ''timestamp'' (PDatetime (datetime_now env n)) = PStr s"
    using s by (auto simp add: dict_get_def dict_get_default_def split: option.splits)
  have "timestamp_keys env (Suc n) es = map (\<lambda>e. (dict_get e ''timestamp'', e)) es"
    using Cons by simp
  then show ?case using s d by (simp add: timestamp_keys_def)
qed

lemma sorted_by_timestamp_strings:
  assumes "\<forall>e \<in> set events. \<exists>s. dict_get e ''timestamp'' = PStr s"
  shows "sorted_by_timestamp env events
           = Inr (sort_key (\<lambda>e. text_of (dict_get e ''timestamp'')) events)"
  using py_sort_strings [of events "\<lambda>e. dict_get e ''timestamp''"] assms
  by (simp add: sorted_by_timestamp_def timestamp_keys_present comp_def)

text \<open>
  C5. The anomaly detector does not return on every event list. On two events two
  seconds apart, whose mean gap of 2 seconds is below 5, it returns exactly one
  \<open>rapid_fire_events\<close> anomaly of severity \<open>medium\<close>. With
  one more event that has no timestamp, the only computable consecutive gap is
  still those 2 seconds, so the same anomaly is due; the sort key of the new event
  is \<open>datetime.now()\<close>, \<open>sorted\<close> compares it with a string, and the detector
  raises \<open>TypeError\<close> instead.
\<close>

theorem anomaly_detector_raises_on_untimed_event:
  "detect_anomalies sample_env two_timed_events
     = Inr [finding ''rapid_fire_events'' ''Events occurring in rapid succession'' ''medium'']
   \<and> consecutive_gaps sample_env with_untimed_event = [2]
   \<and> detect_anomalies sample_env with_untimed_event = Inl TypeError"
  by code_simp

text \<open>
  C8. Totality of the detectors over arbitrary event records does not hold of the
  code: on two events of which one has a string timestamp and the other has
  none, the sort key of the second is \<open>datetime.now()\<close>, and comparing a datetime
  with a string raises \<open>TypeError\<close>, in \<open>sorted\<close> of the anomaly detector and in
  \<open>min\<close> of the red-flag detector, whatever the clock reads.
\<close>

theorem detectors_raise_on_mixed_timestamps:
  "detect_anomalies env mixed_timestamps = Inl TypeError
   \<and> detect_red_flags env mixed_timestamps [] = Inl TypeError"
  by (simp add: detect_anomalies_def sorted_by_timestamp_def timestamp_keys_def mixed_timestamps_def
        detect_red_flags_def rapid_completion_flag_def perfect_solution_flag_def and_then_def
        dict_get_default_def enumerate_eq_zip upt_rec datetime_now_def)

subsection \<open>Plagiarism\<close>

lemma not_distinct_map_filter:
  "\<not> distinct (map f (filter P xs)) \<longleftrightarrow>
     (\<exists>i j. i < j \<and> j < length xs \<and> P (xs ! i) \<and> P (xs ! j) \<and> f (xs ! i) = f (xs ! j))"
proof (induction xs)
  case Nil
  show ?case by simp
next
  case (Cons x xs)
  have head: "(P x \<and> f x \<in> f ` {y \<in> set xs. P y})
                \<longleftrightarrow> (\<exists>j. j < length xs \<and> P x \<and> P (xs ! j) \<and> f x = f (xs ! j))"
    by (auto simp add: in_set_conv_nth)
  have split: "(\<exists>i j. i < j \<and> j < length (x # xs) \<and> P ((x # xs) ! i) \<and> P ((x # xs) ! j)
                     \<and> f ((x # xs) ! i) = f ((x # xs) ! j))
        \<longleftrightarrow> (\<exists>j. j < length xs \<and> P x \<and> P (xs ! j) \<and> f x = f (xs ! j))
            \<or> (\<exists>i j. i < j \<and> j < length xs \<and> P (xs ! i) \<and> P (xs ! j) \<and> f (xs ! i) = f (xs ! j))"
    (is "?L \<longleftrightarrow> ?A \<or> ?B")
  proof
    assume ?L
    then obtain i j where ij: "i < j" "j < length (x # xs)" "P ((x # xs) ! i)" "P ((x # xs) ! j)"
        "f ((x # xs) ! i) = f ((x # xs) ! j)" by blast
    from ij(1) obtain j' where j': "j = Suc j'" by (cases j) auto
    show "?A \<or> ?B"
    proof (cases i)
      case 0
      then have ?A using ij j' by auto
      then show ?thesis ..
    next
      case (Suc i')
      then have ?B using ij j' by auto
      then show ?thesis ..
    qed
  next
    assume "?A \<or> ?B"
    then show ?L
    proof
      assume ?A
      then obtain j where "j < length xs" "P x" "P (xs ! j)" "f x = f (xs ! j)" by blast
      then have "0 < Suc j \<and> Suc j < length (x # xs) \<and> P ((x # xs) ! 0) \<and> P ((x # xs) ! Suc j)
                     \<and> f ((x # xs) ! 0) = f ((x # xs) ! Suc j)" by simp
      then show ?L by blast
    next
      assume ?B
      then obtain i j where "i < j" "j < length xs" "P (xs ! i)" "P (xs ! j)" "f (xs ! i) = f (xs ! j)"
        by blast
      then have "Suc i < Suc j \<and> Suc j < length (x # xs) \<and> P ((x # xs) ! Suc i) \<and> P ((x # xs) ! Suc j)
                     \<and> f ((x # xs) ! Suc i) = f ((x # xs) ! Suc j)" by simp
      then show ?L by blast
    qed
  qed
  show ?case
    unfolding split using Cons.IH head by auto
qed

lemma text_truthy:
  "is_text (dict_get d k) \<Longrightarrow> truthy (dict_get d k) \<Longrightarrow>
     \<exists>s. s \<noteq> [] \<and> dict_get d k = PStr s \<and> dict_get_default d k (PStr []) = PStr s"
  by (auto simp add: is_text_def dict_get_def dict_get_default_def split: pyval.splits option.splits)

lemma text_default:
  "is_text (dict_get d k) \<Longrightarrow>
     (\<exists>s. dict_get_default d k (PStr []) = PStr s
          \<and> (s \<noteq> [] \<longrightarrow> dict_get d k = PStr s)
          \<and> (\<forall>t. dict_get d k = PStr t \<longrightarrow> t = s))
     \<or> (dict_get_default d k (PStr []) = PNone \<and> dict_get d k = PNone)"
  by (auto simp add: is_text_def dict_get_def dict_get_default_def split: pyval.splits option.splits)

lemma set_len_strings:
  "\<forall>v \<in> set vs. \<exists>s. v = PStr s \<Longrightarrow> set_len vs = Inr (length (remdups vs))"
proof -
  assume a: "\<forall>v \<in> set vs. \<exists>s. v = PStr s"
  then have h: "list_all hashable vs" by (auto simp add: list_all_iff hashable_def)
  have "map hash_key vs = vs" using a by (induction vs) (auto simp add: hash_key_def)
  with h show ?thesis by (simp add: set_len_def)
qed

lemma remdups_shorter: "length (remdups xs) < length xs \<longleftrightarrow> \<not> distinct xs"
proof
  assume "length (remdups xs) < length xs"
  then show "\<not> distinct xs" by (auto simp add: distinct_remdups_id)
next
  assume "\<not> distinct xs"
  then have "remdups xs \<noteq> xs" by (metis distinct_remdups)
  then have "length (remdups xs) \<noteq> length xs" by simp
  then show "length (remdups xs) < length xs"
    using length_remdups_leq [of xs] by linarith
qed

lemma identical_submissions_check_typed:
  assumes "\<forall>s \<in> set submissions. is_text (dict_get s ''code'')"
  shows "identical_submissions_check submissions a0 =
           Inr (if share_code_text submissions
                then a0\<lparr>suspicious := True,
                        patterns := patterns a0 @ [''identical_submissions''],
                        confidence := 80\<rparr>
                else a0)"
proof -
  define P where "P = (\<lambda>s. truthy (dict_get s ''code''))"
  define f where "f = (\<lambda>s. dict_get_default s ''code'' (PStr []))"
  have strs: "\<forall>v \<in> set (map f (filter P submissions)). \<exists>s. v = PStr s"
    using assms text_truthy [of _ "''code''"] by (fastforce simp add: P_def f_def)
  have sl: "set_len (map f (filter P submissions))
              = Inr (length (remdups (map f (filter P submissions))))"
    using strs by (rule set_len_strings)
  have dup: "\<not> distinct (map f (filter P submissions)) \<longleftrightarrow> share_code_text submissions"
  proof -
    have "(\<exists>i j. i < j \<and> j < length submissions \<and> P (submissions ! i) \<and> P (submissions ! j)
               \<and> f (submissions ! i) = f (submissions ! j))
          \<longleftrightarrow> share_code_text submissions"
    proof
      assume "\<exists>i j. i < j \<and> j < length submissions \<and> P (submissions ! i) \<and> P (submissions ! j)
               \<and> f (submissions ! i) = f (submissions ! j)"
      then obtain i j where ij: "i < j" "j < length submissions" "P (submissions ! i)"
          "P (submissions ! j)" "f (submissions ! i) = f (submissions ! j)" by blast
      have ti: "is_text (dict_get (submissions ! i) ''code'')"
        and tj: "is_text (dict_get (submissions ! j) ''code'')"
        using assms ij by auto
      from text_truthy [OF ti] ij(3) obtain s where
        s: "s \<noteq> []" "dict_get (submissions ! i) ''code'' = PStr s" "f (submissions ! i) = PStr s"
        by (auto simp add: P_def f_def)
      from text_truthy [OF tj] ij(4) obtain t where
        t: "dict_get (submissions ! j) ''code'' = PStr t" "f (submissions ! j) = PStr t"
        by (auto simp add: P_def f_def)
      from s t ij(5) have "t = s" by simp
      with s t ij show "share_code_text submissions"
        unfolding share_code_text_def by blast
    next
      assume "share_code_text submissions"
      then obtain i j s where ij: "i < j" "j < length submissions" "s \<noteq> []"
          "dict_get (submissions ! i) ''code'' = PStr s"
          "dict_get (submissions ! j) ''code'' = PStr s"
        unfolding share_code_text_def by blast
      have "P (submissions ! i)" "P (submissions ! j)" using ij by (simp_all add: P_def)
      moreover have "f (submissions ! i) = PStr s" "f (submissions ! j) = PStr s"
        using ij by (auto simp add: f_def dict_get_def dict_get_default_def split: option.splits)
      ultimately have "i < j \<and> j < length submissions \<and> P (submissions ! i)
              \<and> P (submissions ! j) \<and> f (submissions ! i) = f (submissions ! j)"
        using ij by simp
      then show "\<exists>i j. i < j \<and> j < length submissions \<and> P (submissions ! i)
              \<and> P (submissions ! j) \<and> f (submissions ! i) = f (submissions ! j)"
        by blast
    qed
    then show ?thesis by (simp add: not_distinct_map_filter)
  qed
  show ?thesis
  proof (cases "length submissions > 1")
    case True
    have lt: "length (remdups (map f (filter P submissions))) < length (filter P submissions)
                \<longleftrightarrow> share_code_text submissions"
      using remdups_shorter [of "map f (filter P submissions)"] dup by simp
    show ?thesis
      using True sl lt
      by (simp add: identical_submissions_check_def Let_def P_def [symmetric] f_def [symmetric])
  next
    case False
    then have "\<not> share_code_text submissions"
      unfolding share_code_text_def by auto
    with False show ?thesis by (simp add: identical_submissions_check_def)
  qed
qed

lemma matches_response_typed:
  assumes "is_text code" "\<forall>r \<in> set responses. is_text (dict_get r ''response_text'')"
  shows "matches_response code responses =
           Inr (\<exists>r \<in> set responses. \<exists>s t. s \<noteq> [] \<and> code = PStr s
                  \<and> dict_get r ''response_text'' = PStr t \<and> sublist s t)"
  using assms(2)
proof (induction responses)
  case Nil
  show ?case by simp
next
  case (Cons r rs)
  have ih: "matches_response code rs =
           Inr (\<exists>r \<in> set rs. \<exists>s t. s \<noteq> [] \<and> code = PStr s
                  \<and> dict_get r ''response_text'' = PStr t \<and> sublist s t)"
    using Cons by simp
  have tr: "is_text (dict_get r ''response_text'')" using Cons.prems by simp
  show ?case
  proof (cases "truthy code \<and> truthy (dict_get_default r ''response_text'' (PStr []))")
    case True
    then obtain s where s: "code = PStr s" "s \<noteq> []"
      using assms(1) by (auto simp add: is_text_def split: pyval.splits)
    from True tr obtain t where t: "dict_get_default r ''response_text'' (PStr []) = PStr t"
        "dict_get r ''response_text'' = PStr t"
      by (auto simp add: is_text_def dict_get_def dict_get_default_def
            split: pyval.splits option.splits)
    show ?thesis
      using True s t ih by (auto simp add: py_in_def Let_def)
  next
    case False
    have none: "\<not> (\<exists>s t. s \<noteq> [] \<and> code = PStr s
                  \<and> dict_get r ''response_text'' = PStr t \<and> sublist s t)"
    proof
      assume "\<exists>s t. s \<noteq> [] \<and> code = PStr s
                  \<and> dict_get r ''response_text'' = PStr t \<and> sublist s t"
      then obtain s t where st: "s \<noteq> []" "code = PStr s" "dict_get r ''response_text'' = PStr t"
          "sublist s t" by blast
      then have "t \<noteq> []" by auto
      then have "truthy (dict_get_default r ''response_text'' (PStr []))"
        using st(3) by (auto simp add: dict_get_def dict_get_default_def split: option.splits)
      with st False show False by simp
    qed
    show ?thesis
      using False ih none by (auto simp add: Let_def)
  qed
qed

lemma snippet_default:
  "is_text (dict_get c ''code_snippet'') \<Longrightarrow>
     is_text (dict_get_default c ''code_snippet'' (PStr []))
     \<and> (\<forall>s. s \<noteq> [] \<longrightarrow> (dict_get_default c ''code_snippet'' (PStr []) = PStr s
                            \<longleftrightarrow> dict_get c ''code_snippet'' = PStr s))"
  by (auto simp add: is_text_def dict_get_def dict_get_default_def split: pyval.splits option.splits)

lemma check_copies_typed:
  assumes "\<forall>c \<in> set copies. is_text (dict_get c ''code_snippet'')"
    and "\<forall>r \<in> set responses. is_text (dict_get r ''response_text'')"
  shows "\<exists>a. check_copies copies responses a0 = Inr a
           \<and> suspicious a = (suspicious a0 \<or> any_match copies responses)
           \<and> set (patterns a) = set (patterns a0)
                \<union> (if any_match copies responses then {''code_matches_ai_response''} else {})
           \<and> confidence a = (if any_match copies responses then max (confidence a0) 70
                              else confidence a0)"
  using assms(1)
proof (induction copies arbitrary: a0)
  case Nil
  show ?case by (simp add: any_match_def)
next
  case (Cons c cs)
  define found where "found \<longleftrightarrow> (\<exists>r \<in> set responses. \<exists>s t. s \<noteq> []
        \<and> dict_get c ''code_snippet'' = PStr s
        \<and> dict_get r ''response_text'' = PStr t \<and> sublist s t)"
  have tc: "is_text (dict_get c ''code_snippet'')" using Cons.prems by simp
  have m: "matches_response (dict_get_default c ''code_snippet'' (PStr [])) responses = Inr found"
    using matches_response_typed [of "dict_get_default c ''code_snippet'' (PStr [])" responses]
      snippet_default [OF tc] assms(2)
    unfolding found_def by auto
  have am: "any_match (c # cs) responses \<longleftrightarrow> found \<or> any_match cs responses"
    by (auto simp add: any_match_def found_def)
  define a1 where "a1 = (if found then
               a0\<lparr>suspicious := True,
                  patterns := patterns a0 @ [''code_matches_ai_response''],
                  confidence := max (confidence a0) 70\<rparr>
             else a0)"
  from Cons.IH [of a1] Cons.prems obtain a where
    a: "check_copies cs responses a1 = Inr a"
       "suspicious a = (suspicious a1 \<or> any_match cs responses)"
       "set (patterns a) = set (patterns a1)
                \<union> (if any_match cs responses then {''code_matches_ai_response''} else {})"
       "confidence a = (if any_match cs responses then max (confidence a1) 70 else confidence a1)"
    by auto
  have "check_copies (c # cs) responses a0 = Inr a"
    using m a(1) by (simp add: a1_def)
  moreover have "suspicious a = (suspicious a0 \<or> any_match (c # cs) responses)"
    using a(2) am by (auto simp add: a1_def)
  moreover have "set (patterns a) = set (patterns a0)
                \<union> (if any_match (c # cs) responses then {''code_matches_ai_response''} else {})"
    using a(3) am by (auto simp add: a1_def)
  moreover have "confidence a = (if any_match (c # cs) responses then max (confidence a0) 70
                              else confidence a0)"
    using a(4) am by (auto simp add: a1_def)
  ultimately show ?case by blast
qed

lemma copy_matches_any_match:
  "copy_matches_response events
     \<longleftrightarrow> any_match (filter is_copy events) (filter is_response_received events)"
  unfolding copy_matches_response_def any_match_def by auto

lemma analyze_plagiarism_text_fields:
  assumes "\<forall>s \<in> set submissions. is_text (dict_get s ''code'')"
    and "\<forall>e \<in> set events. is_text (dict_get e ''code_snippet'')
                           \<and> is_text (dict_get e ''response_text'')"
  shows "\<exists>a. analyze_plagiarism submissions events = Inr a
           \<and> (share_code_text submissions \<longrightarrow>
                 suspicious a \<and> ''identical_submissions'' \<in> set (patterns a) \<and> confidence a = 80)
           \<and> (copy_matches_response events \<longrightarrow>
                 suspicious a \<and> ''code_matches_ai_response'' \<in> set (patterns a)
                 \<and> 70 \<le> confidence a)
           \<and> confidence a = max (if share_code_text submissions then 80 else 0)
                                 (if copy_matches_response events then 70 else 0)
           \<and> (suspicious a \<longleftrightarrow> share_code_text submissions \<or> copy_matches_response events)"
proof -
  define a1 where "a1 = (if share_code_text submissions
                then \<lparr>suspicious = True, patterns = [''identical_submissions''], confidence = 80\<rparr>
                else \<lparr>suspicious = False, patterns = [], confidence = 0\<rparr>)"
  have first: "identical_submissions_check submissions
                 \<lparr>suspicious = False, patterns = [], confidence = 0\<rparr> = Inr a1"
    using identical_submissions_check_typed [OF assms(1)] by (simp add: a1_def)
  define copies where "copies = filter is_copy events"
  define responses where "responses = filter is_response_received events"
  have tc: "\<forall>c \<in> set copies. is_text (dict_get c ''code_snippet'')"
    using assms(2) by (simp add: copies_def)
  have tr: "\<forall>r \<in> set responses. is_text (dict_get r ''response_text'')"
    using assms(2) by (simp add: responses_def)
  have cm: "copy_matches_response events \<longleftrightarrow> any_match copies responses"
    by (simp add: copy_matches_any_match copies_def responses_def)
  from check_copies_typed [OF tc tr, of a1] obtain a where
    a: "check_copies copies responses a1 = Inr a"
       "suspicious a = (suspicious a1 \<or> any_match copies responses)"
       "set (patterns a) = set (patterns a1)
                \<union> (if any_match copies responses then {''code_matches_ai_response''} else {})"
       "confidence a = (if any_match copies responses then max (confidence a1) 70
                              else confidence a1)"
    by blast
  have empty: "copies = [] \<or> responses = [] \<Longrightarrow> check_copies copies responses a1 = Inr a1"
  proof -
    assume e: "copies = [] \<or> responses = []"
    then have "\<not> any_match copies responses" by (auto simp add: any_match_def)
    then have "suspicious a = suspicious a1" "set (patterns a) = set (patterns a1)" 
        "confidence a = confidence a1" using a by auto
    show ?thesis
    proof (cases "copies = []")
      case True
      then show ?thesis by simp
    next
      case False
      with e have r: "responses = []" by simp
      have "\<And>b. check_copies copies [] b = Inr b"
        by (induction copies) simp_all
      then show ?thesis using r by simp
    qed
  qed
  have run: "analyze_plagiarism submissions events = Inr a"
  proof (cases "copies \<noteq> [] \<and> responses \<noteq> []")
    case True
    then show ?thesis
      using first a(1)
      by (simp add: analyze_plagiarism_def Let_def copies_def [symmetric] responses_def [symmetric])
  next
    case False
    then have "check_copies copies responses a1 = Inr a1" using empty by blast
    with a(1) have "a = a1" by simp
    with False show ?thesis
      using first
      by (auto simp add: analyze_plagiarism_def Let_def copies_def [symmetric]
            responses_def [symmetric])
  qed
  have p1: "share_code_text submissions \<longrightarrow>
                 suspicious a \<and> ''identical_submissions'' \<in> set (patterns a) \<and> confidence a = 80"
    using a(2,3,4) by (auto simp add: a1_def)
  have p2: "copy_matches_response events \<longrightarrow>
                 suspicious a \<and> ''code_matches_ai_response'' \<in> set (patterns a)
                 \<and> 70 \<le> confidence a"
    using a(2,3,4) cm by auto
  have p3: "confidence a = max (if share_code_text submissions then 80 else 0)
                                 (if copy_matches_response events then 70 else 0)"
    using a(4) cm by (auto simp add: a1_def)
  have p4: "suspicious a \<longleftrightarrow> share_code_text submissions \<or> copy_matches_response events"
    using a(2) cm by (auto simp add: a1_def)
  show ?thesis using run p1 p2 p3 p4 by blast
qed

lemma truthy_default:
  "truthy (dict_get_default d k (PStr [])) = truthy (dict_get d k)"
  "truthy (dict_get d k) \<Longrightarrow> dict_get_default d k (PStr []) = dict_get d k"
  by (auto simp add: dict_get_def dict_get_default_def split: option.splits)

lemma set_len_Inr:
  "set_len vs = Inr n \<Longrightarrow> (n < length vs \<longleftrightarrow> \<not> distinct (map hash_key vs))"
  using remdups_shorter [of "map hash_key vs"]
  by (auto simp add: set_len_def split: if_splits)

lemma identical_submissions_check_Inr:
  assumes "identical_submissions_check submissions a0 = Inr a1"
  shows "a1 = (if duplicate_codes submissions
               then a0\<lparr>suspicious := True,
                       patterns := patterns a0 @ [''identical_submissions''],
                       confidence := 80\<rparr>
               else a0)"
proof (cases "length submissions > 1")
  case False
  then have "\<not> duplicate_codes submissions"
    unfolding duplicate_codes_def by auto
  with False assms show ?thesis by (simp add: identical_submissions_check_def)
next
  case True
  define P where "P = (\<lambda>s. truthy (dict_get s ''code''))"
  define f where "f = (\<lambda>s. dict_get_default s ''code'' (PStr []))"
  from assms True obtain n where n: "set_len (map f (filter P submissions)) = Inr n"
    by (auto simp add: identical_submissions_check_def Let_def P_def f_def split: sum.splits)
  have res: "a1 = (if n < length (map f (filter P submissions))
               then a0\<lparr>suspicious := True,
                       patterns := patterns a0 @ [''identical_submissions''],
                       confidence := 80\<rparr>
               else a0)"
    using assms True n
    by (auto simp add: identical_submissions_check_def Let_def P_def [symmetric] f_def [symmetric])
  have "n < length (map f (filter P submissions))
          \<longleftrightarrow> \<not> distinct (map (hash_key \<circ> f) (filter P submissions))"
    using set_len_Inr [OF n] by simp
  also have "\<dots> \<longleftrightarrow> (\<exists>i j. i < j \<and> j < length submissions \<and> P (submissions ! i)
                  \<and> P (submissions ! j)
                  \<and> (hash_key \<circ> f) (submissions ! i) = (hash_key \<circ> f) (submissions ! j))"
    by (rule not_distinct_map_filter)
  also have "\<dots> \<longleftrightarrow> duplicate_codes submissions"
  proof -
    have k: "\<And>s. P s \<Longrightarrow> (hash_key \<circ> f) s = hash_key (dict_get s ''code'')"
      by (simp add: P_def f_def truthy_default)
    show ?thesis
    proof
      assume "\<exists>i j. i < j \<and> j < length submissions \<and> P (submissions ! i)
                  \<and> P (submissions ! j)
                  \<and> (hash_key \<circ> f) (submissions ! i) = (hash_key \<circ> f) (submissions ! j)"
      then obtain i j where "i < j" "j < length submissions" "P (submissions ! i)"
          "P (submissions ! j)"
          "(hash_key \<circ> f) (submissions ! i) = (hash_key \<circ> f) (submissions ! j)"
        by blast
      then have "i < j \<and> j < length submissions
          \<and> truthy (dict_get (submissions ! i) ''code'')
          \<and> truthy (dict_get (submissions ! j) ''code'')
          \<and> hash_key (dict_get (submissions ! i) ''code'')
              = hash_key (dict_get (submissions ! j) ''code'')"
        using k [of "submissions ! i"] k [of "submissions ! j"] by (simp add: P_def)
      then show "duplicate_codes submissions"
        unfolding duplicate_codes_def by blast
    next
      assume "duplicate_codes submissions"
      then obtain i j where "i < j" "j < length submissions"
          "truthy (dict_get (submissions ! i) ''code'')"
          "truthy (dict_get (submissions ! j) ''code'')"
          "hash_key (dict_get (submissions ! i) ''code'')
              = hash_key (dict_get (submissions ! j) ''code'')"
        unfolding duplicate_codes_def by blast
      then have "i < j \<and> j < length submissions \<and> P (submissions ! i)
                  \<and> P (submissions ! j)
                  \<and> (hash_key \<circ> f) (submissions ! i) = (hash_key \<circ> f) (submissions ! j)"
        using k [of "submissions ! i"] k [of "submissions ! j"] by (simp add: P_def)
      then show "\<exists>i j. i < j \<and> j < length submissions \<and> P (submissions ! i)
                  \<and> P (submissions ! j)
                  \<and> (hash_key \<circ> f) (submissions ! i) = (hash_key \<circ> f) (submissions ! j)"
        by blast
    qed
  qed
  finally show ?thesis using res by simp
qed

lemma matches_response_Inr:
  "matches_response code responses = Inr b \<Longrightarrow>
     b = (\<exists>r \<in> set responses. truthy code \<and> truthy (dict_get r ''response_text'')
             \<and> py_in code (dict_get r ''response_text'') = Inr True)"
proof (induction responses)
  case Nil
  then show ?case by simp
next
  case (Cons r rs)
  show ?case
  proof (cases "truthy code \<and> truthy (dict_get r ''response_text'')")
    case False
    then have "matches_response code rs = Inr b"
      using Cons.prems by (auto simp add: Let_def truthy_default)
    with Cons.IH False show ?thesis by auto
  next
    case True
    then have eq: "dict_get_default r ''response_text'' (PStr []) = dict_get r ''response_text''"
      by (simp add: truthy_default)
    show ?thesis
    proof (cases "py_in code (dict_get r ''response_text'')")
      case (Inl e)
      then show ?thesis using Cons.prems True eq by (simp add: Let_def truthy_default)
    next
      case (Inr found)
      show ?thesis
      proof (cases found)
        case True
        then show ?thesis using Cons.prems \<open>truthy code \<and> truthy (dict_get r ''response_text'')\<close> eq Inr
          by (auto simp add: Let_def truthy_default)
      next
        case False
        then have "matches_response code rs = Inr b"
          using Cons.prems \<open>truthy code \<and> truthy (dict_get r ''response_text'')\<close> eq Inr
          by (simp add: Let_def truthy_default)
        with Cons.IH False Inr show ?thesis by auto
      qed
    qed
  qed
qed

lemma check_copies_Inr:
  "check_copies copies responses a0 = Inr a \<Longrightarrow>
     suspicious a = (suspicious a0 \<or> any_in copies responses)
     \<and> set (patterns a) = set (patterns a0)
          \<union> (if any_in copies responses then {''code_matches_ai_response''} else {})
     \<and> confidence a = (if any_in copies responses then max (confidence a0) 70
                        else confidence a0)"
proof (induction copies arbitrary: a0)
  case Nil
  then show ?case by (simp add: any_in_def)
next
  case (Cons c cs)
  from Cons.prems obtain found where
    m: "matches_response (dict_get_default c ''code_snippet'' (PStr [])) responses = Inr found"
    by (auto split: sum.splits)
  define a1 where "a1 = (if found then
               a0\<lparr>suspicious := True,
                  patterns := patterns a0 @ [''code_matches_ai_response''],
                  confidence := max (confidence a0) 70\<rparr>
             else a0)"
  have rest: "check_copies cs responses a1 = Inr a"
    using Cons.prems m by (simp add: a1_def)
  have f: "found = (\<exists>r \<in> set responses. truthy (dict_get c ''code_snippet'')
             \<and> truthy (dict_get r ''response_text'')
             \<and> py_in (dict_get c ''code_snippet'') (dict_get r ''response_text'') = Inr True)"
  proof (cases "truthy (dict_get c ''code_snippet'')")
    case True
    then show ?thesis using matches_response_Inr [OF m] by (simp add: truthy_default)
  next
    case False
    then show ?thesis using matches_response_Inr [OF m] by (simp add: truthy_default)
  qed
  have am: "any_in (c # cs) responses \<longleftrightarrow> found \<or> any_in cs responses"
    unfolding any_in_def f by auto
  from Cons.IH [OF rest] have
    ih: "suspicious a = (suspicious a1 \<or> any_in cs responses)"
        "set (patterns a) = set (patterns a1)
          \<union> (if any_in cs responses then {''code_matches_ai_response''} else {})"
        "confidence a = (if any_in cs responses then max (confidence a1) 70 else confidence a1)"
    by auto
  have "suspicious a = (suspicious a0 \<or> any_in (c # cs) responses)"
    using ih(1) am by (auto simp add: a1_def)
  moreover have "set (patterns a) = set (patterns a0)
          \<union> (if any_in (c # cs) responses then {''code_matches_ai_response''} else {})"
    using ih(2) am by (auto simp add: a1_def)
  moreover have "confidence a = (if any_in (c # cs) responses then max (confidence a0) 70
                        else confidence a0)"
    using ih(3) am by (auto simp add: a1_def)
  ultimately show ?case by blast
qed

lemma snippet_in_response_any_in:
  "snippet_in_response events
     \<longleftrightarrow> any_in (filter is_copy events) (filter is_response_received events)"
  unfolding snippet_in_response_def any_in_def by auto

lemma share_code_text_duplicate: "share_code_text submissions \<Longrightarrow> duplicate_codes submissions"
  unfolding share_code_text_def duplicate_codes_def
  by (metis truthy.simps(4))

lemma copy_matches_snippet: "copy_matches_response events \<Longrightarrow> snippet_in_response events"
proof -
  assume "copy_matches_response events"
  then obtain c r s t where h: "c \<in> set events" "r \<in> set events" "is_copy c"
      "is_response_received r" "s \<noteq> []" "dict_get c ''code_snippet'' = PStr s"
      "dict_get r ''response_text'' = PStr t" "sublist s t"
    unfolding copy_matches_response_def by blast
  then have "t \<noteq> []" by auto
  then have "truthy (dict_get c ''code_snippet'') \<and> truthy (dict_get r ''response_text'')
        \<and> py_in (dict_get c ''code_snippet'') (dict_get r ''response_text'') = Inr True"
    using h by (simp add: py_in_def)
  with h show ?thesis unfolding snippet_in_response_def by blast
qed

lemma analyze_plagiarism_Inr:
  assumes "analyze_plagiarism submissions events = Inr a"
  shows "suspicious a = (duplicate_codes submissions \<or> snippet_in_response events)"
    and "duplicate_codes submissions \<Longrightarrow> ''identical_submissions'' \<in> set (patterns a)"
    and "snippet_in_response events \<Longrightarrow> ''code_matches_ai_response'' \<in> set (patterns a)"
    and "confidence a = max (if duplicate_codes submissions then 80 else 0)
                            (if snippet_in_response events then 70 else 0)"
proof -
  define a0 where "a0 = \<lparr>suspicious = False, patterns = [], confidence = 0\<rparr>"
  define copies where "copies = filter is_copy events"
  define responses where "responses = filter is_response_received events"
  from assms obtain a1 where first: "identical_submissions_check submissions a0 = Inr a1"
    by (auto simp add: analyze_plagiarism_def a0_def split: sum.splits)
  have a1: "a1 = (if duplicate_codes submissions
               then \<lparr>suspicious = True, patterns = [''identical_submissions''], confidence = 80\<rparr>
               else a0)"
    using identical_submissions_check_Inr [OF first] by (simp add: a0_def)
  have sn: "snippet_in_response events \<longleftrightarrow> any_in copies responses"
    by (simp add: snippet_in_response_any_in copies_def responses_def)
  have props: "suspicious a = (suspicious a1 \<or> any_in copies responses)
     \<and> set (patterns a) = set (patterns a1)
          \<union> (if any_in copies responses then {''code_matches_ai_response''} else {})
     \<and> confidence a = (if any_in copies responses then max (confidence a1) 70
                        else confidence a1)"
  proof (cases "copies \<noteq> [] \<and> responses \<noteq> []")
    case True
    then have "check_copies copies responses a1 = Inr a"
      using assms first
      by (simp add: analyze_plagiarism_def Let_def a0_def copies_def [symmetric]
            responses_def [symmetric])
    then show ?thesis by (rule check_copies_Inr)
  next
    case False
    then have "a = a1"
      using assms first
      by (auto simp add: analyze_plagiarism_def Let_def a0_def copies_def [symmetric]
            responses_def [symmetric])
    moreover have "\<not> any_in copies responses"
      using False by (auto simp add: any_in_def)
    ultimately show ?thesis by simp
  qed
  show "suspicious a = (duplicate_codes submissions \<or> snippet_in_response events)"
    using props sn by (auto simp add: a1 a0_def)
  show "duplicate_codes submissions \<Longrightarrow> ''identical_submissions'' \<in> set (patterns a)"
    using props by (auto simp add: a1)
  show "snippet_in_response events \<Longrightarrow> ''code_matches_ai_response'' \<in> set (patterns a)"
    using props sn by auto
  show "confidence a = max (if duplicate_codes submissions then 80 else 0)
                            (if snippet_in_response events then 70 else 0)"
    using props sn by (auto simp add: a1 a0_def)
qed

lemma text_triggers:
  assumes "\<forall>s \<in> set submissions. is_text (dict_get s ''code'')"
    and "\<forall>e \<in> set events. is_text (dict_get e ''code_snippet'')
                           \<and> is_text (dict_get e ''response_text'')"
  shows "duplicate_codes submissions \<longleftrightarrow> share_code_text submissions"
    and "snippet_in_response events \<longleftrightarrow> copy_matches_response events"
proof -
  have tt: "\<And>v. is_text v \<Longrightarrow> truthy v \<Longrightarrow> \<exists>s. s \<noteq> [] \<and> v = PStr s \<and> hash_key v = v"
    by (auto simp add: is_text_def hash_key_def split: pyval.splits)
  show "duplicate_codes submissions \<longleftrightarrow> share_code_text submissions"
  proof
    assume "duplicate_codes submissions"
    then obtain i j where ij: "i < j" "j < length submissions"
        "truthy (dict_get (submissions ! i) ''code'')"
        "truthy (dict_get (submissions ! j) ''code'')"
        "hash_key (dict_get (submissions ! i) ''code'')
            = hash_key (dict_get (submissions ! j) ''code'')"
      unfolding duplicate_codes_def by blast
    have ti: "is_text (dict_get (submissions ! i) ''code'')"
      and tj: "is_text (dict_get (submissions ! j) ''code'')"
      using assms(1) ij by auto
    from tt [OF ti ij(3)] obtain s where
      s: "s \<noteq> []" "dict_get (submissions ! i) ''code'' = PStr s"
         "hash_key (dict_get (submissions ! i) ''code'') = dict_get (submissions ! i) ''code''"
      by blast
    from tt [OF tj ij(4)] obtain t where
      t: "dict_get (submissions ! j) ''code'' = PStr t"
         "hash_key (dict_get (submissions ! j) ''code'') = dict_get (submissions ! j) ''code''"
      by blast
    have "t = s" using s t ij(5) by simp
    then have "i < j \<and> j < length submissions \<and> s \<noteq> []
        \<and> dict_get (submissions ! i) ''code'' = PStr s
        \<and> dict_get (submissions ! j) ''code'' = PStr s"
      using ij s t by simp
    then show "share_code_text submissions"
      unfolding share_code_text_def by blast
  next
    assume "share_code_text submissions"
    then show "duplicate_codes submissions" by (rule share_code_text_duplicate)
  qed
  show "snippet_in_response events \<longleftrightarrow> copy_matches_response events"
  proof
    assume "snippet_in_response events"
    then obtain c r where cr: "c \<in> set events" "r \<in> set events" "is_copy c"
        "is_response_received r" "truthy (dict_get c ''code_snippet'')"
        "truthy (dict_get r ''response_text'')"
        "py_in (dict_get c ''code_snippet'') (dict_get r ''response_text'') = Inr True"
      unfolding snippet_in_response_def by blast
    have tc: "is_text (dict_get c ''code_snippet'')"
      and tr: "is_text (dict_get r ''response_text'')"
      using assms(2) cr by auto
    from tt [OF tc cr(5)] obtain s where s: "s \<noteq> []" "dict_get c ''code_snippet'' = PStr s"
      by blast
    from tt [OF tr cr(6)] obtain t where t: "dict_get r ''response_text'' = PStr t"
      by blast
    have "sublist s t" using cr(7) s t by (simp add: py_in_def)
    then have "c \<in> set events \<and> r \<in> set events \<and> is_copy c \<and> is_response_received r
        \<and> s \<noteq> [] \<and> dict_get c ''code_snippet'' = PStr s
        \<and> dict_get r ''response_text'' = PStr t \<and> sublist s t"
      using cr s t by simp
    then show "copy_matches_response events"
      unfolding copy_matches_response_def by blast
  next
    assume "copy_matches_response events"
    then show "snippet_in_response events" by (rule copy_matches_snippet)
  qed
qed

text \<open>
  C6, as amended. For every submission list and event list on which the
  plagiarism analysis returns a result: if two or more submissions have the same
  non-empty code text then \<open>suspicious\<close> is true, \<open>identical_submissions\<close> is among
  the patterns and the confidence is 80; if the non-empty snippet of some copy
  event is a substring of the text of some \<open>response_received\<close> event then
  \<open>suspicious\<close> is true, \<open>code_matches_ai_response\<close> is among the patterns and the
  confidence is at least 70; and the confidence is the maximum over the checks
  that triggered (80 for the duplicate check, 70 for the snippet check, 0 when
  none did), never their sum. The analysis returns whenever the \<open>code\<close>,
  \<open>code_snippet\<close> and \<open>response_text\<close> fields are text (a string, or absent or
  null), and then the two checks trigger exactly on shared code text and on a
  snippet found in a response text.
\<close>

theorem analyze_plagiarism_when_it_returns:
  "((\<forall>s \<in> set submissions. is_text (dict_get s ''code''))
      \<and> (\<forall>e \<in> set events. is_text (dict_get e ''code_snippet'')
                            \<and> is_text (dict_get e ''response_text''))
     \<longrightarrow> (\<exists>b. analyze_plagiarism submissions events = Inr b)
         \<and> (duplicate_codes submissions \<longleftrightarrow> share_code_text submissions)
         \<and> (snippet_in_response events \<longleftrightarrow> copy_matches_response events))
   \<and> (analyze_plagiarism submissions events = Inr a \<longrightarrow>
         (share_code_text submissions \<longrightarrow>
            suspicious a \<and> ''identical_submissions'' \<in> set (patterns a) \<and> confidence a = 80)
       \<and> (copy_matches_response events \<longrightarrow>
            suspicious a \<and> ''code_matches_ai_response'' \<in> set (patterns a)
            \<and> 70 \<le> confidence a)
       \<and> confidence a = max (if duplicate_codes submissions then 80 else 0)
                             (if snippet_in_response events then 70 else 0)
       \<and> (suspicious a \<longleftrightarrow> duplicate_codes submissions \<or> snippet_in_response events))"
proof -
  have part1: "(\<forall>s \<in> set submissions. is_text (dict_get s ''code''))
      \<and> (\<forall>e \<in> set events. is_text (dict_get e ''code_snippet'')
                            \<and> is_text (dict_get e ''response_text''))
     \<longrightarrow> (\<exists>b. analyze_plagiarism submissions events = Inr b)
         \<and> (duplicate_codes submissions \<longleftrightarrow> share_code_text submissions)
         \<and> (snippet_in_response events \<longleftrightarrow> copy_matches_response events)"
  proof
    assume t: "(\<forall>s \<in> set submissions. is_text (dict_get s ''code''))
      \<and> (\<forall>e \<in> set events. is_text (dict_get e ''code_snippet'')
                            \<and> is_text (dict_get e ''response_text''))"
    have r: "\<exists>b. analyze_plagiarism submissions events = Inr b"
      using analyze_plagiarism_text_fields [of submissions events] t by blast
    have d: "duplicate_codes submissions \<longleftrightarrow> share_code_text submissions"
      using t text_triggers(1) [of submissions events] by blast
    have m: "snippet_in_response events \<longleftrightarrow> copy_matches_response events"
      using t text_triggers(2) [of submissions events] by blast
    show "(\<exists>b. analyze_plagiarism submissions events = Inr b)
         \<and> (duplicate_codes submissions \<longleftrightarrow> share_code_text submissions)
         \<and> (snippet_in_response events \<longleftrightarrow> copy_matches_response events)"
      using r d m by blast
  qed
  have part2: "analyze_plagiarism submissions events = Inr a \<longrightarrow>
         (share_code_text submissions \<longrightarrow>
            suspicious a \<and> ''identical_submissions'' \<in> set (patterns a) \<and> confidence a = 80)
       \<and> (copy_matches_response events \<longrightarrow>
            suspicious a \<and> ''code_matches_ai_response'' \<in> set (patterns a)
            \<and> 70 \<le> confidence a)
       \<and> confidence a = max (if duplicate_codes submissions then 80 else 0)
                             (if snippet_in_response events then 70 else 0)
       \<and> (suspicious a \<longleftrightarrow> duplicate_codes submissions \<or> snippet_in_response events)"
  proof
    assume r: "analyze_plagiarism submissions events = Inr a"
    note p = analyze_plagiarism_Inr [OF r]
    have a: "share_code_text submissions \<longrightarrow>
            suspicious a \<and> ''identical_submissions'' \<in> set (patterns a) \<and> confidence a = 80"
    proof
      assume "share_code_text submissions"
      then have d: "duplicate_codes submissions" by (rule share_code_text_duplicate)
      show "suspicious a \<and> ''identical_submissions'' \<in> set (patterns a) \<and> confidence a = 80"
        using p(1) p(2) [OF d] p(4) d by simp
    qed
    have b: "copy_matches_response events \<longrightarrow>
            suspicious a \<and> ''code_matches_ai_response'' \<in> set (patterns a)
            \<and> 70 \<le> confidence a"
    proof
      assume "copy_matches_response events"
      then have m: "snippet_in_response events" by (rule copy_matches_snippet)
      show "suspicious a \<and> ''code_matches_ai_response'' \<in> set (patterns a)
            \<and> 70 \<le> confidence a"
        using p(1) p(3) [OF m] p(4) m by simp
    qed
    show "(share_code_text submissions \<longrightarrow>
            suspicious a \<and> ''identical_submissions'' \<in> set (patterns a) \<and> confidence a = 80)
       \<and> (copy_matches_response events \<longrightarrow>
            suspicious a \<and> ''code_matches_ai_response'' \<in> set (patterns a)
            \<and> 70 \<le> confidence a)
       \<and> confidence a = max (if duplicate_codes submissions then 80 else 0)
                             (if snippet_in_response events then 70 else 0)
       \<and> (suspicious a \<longleftrightarrow> duplicate_codes submissions \<or> snippet_in_response events)"
      using a b p(1) p(4) by blast
  qed
  show ?thesis using part1 part2 by blast
qed

text \<open>
  Three submissions of which two are the same, and a snippet copied out of a
  response: both checks trigger and the confidence is 80.
\<close>

theorem analyze_plagiarism_when_it_returns_witness:
  "analyze_plagiarism twin_submissions copied_from_response
     = Inr \<lparr>suspicious = True,
            patterns = [''identical_submissions'', ''code_matches_ai_response''],
            confidence = 80\<rparr>
   \<and> share_code_text twin_submissions
   \<and> copy_matches_response copied_from_response
   \<and> duplicate_codes twin_submissions
   \<and> snippet_in_response copied_from_response"
proof -
  have t: "(\<forall>s \<in> set twin_submissions. is_text (dict_get s ''code''))
      \<and> (\<forall>e \<in> set copied_from_response. is_text (dict_get e ''code_snippet'')
                            \<and> is_text (dict_get e ''response_text''))"
    by (simp add: twin_submissions_def copied_from_response_def is_text_def dict_get_def
          dict_get_default_def)
  have r: "analyze_plagiarism twin_submissions copied_from_response
     = Inr \<lparr>suspicious = True,
            patterns = [''identical_submissions'', ''code_matches_ai_response''],
            confidence = 80\<rparr>"
    by code_simp
  have "0 < (2::nat) \<and> 2 < length twin_submissions \<and> ''print(1)'' \<noteq> []
        \<and> dict_get (twin_submissions ! 0) ''code'' = PStr ''print(1)''
        \<and> dict_get (twin_submissions ! 2) ''code'' = PStr ''print(1)''"
    by code_simp
  then have s: "share_code_text twin_submissions"
    unfolding share_code_text_def by blast
  have "is_copy (copied_from_response ! 1) \<and> is_response_received (copied_from_response ! 0)
        \<and> ''print(1)'' \<noteq> []
        \<and> dict_get (copied_from_response ! 1) ''code_snippet'' = PStr ''print(1)''
        \<and> dict_get (copied_from_response ! 0) ''response_text'' = PStr ''use print(1) here''
        \<and> sublist ''print(1)'' ''use print(1) here''
        \<and> copied_from_response ! 1 \<in> set copied_from_response
        \<and> copied_from_response ! 0 \<in> set copied_from_response"
    by code_simp
  then have m: "copy_matches_response copied_from_response"
    unfolding copy_matches_response_def by blast
  note T = analyze_plagiarism_when_it_returns
             [of twin_submissions copied_from_response
                 "\<lparr>suspicious = True,
                   patterns = [''identical_submissions'', ''code_matches_ai_response''],
                   confidence = 80\<rparr>"]
  have d: "duplicate_codes twin_submissions" using T t s by blast
  have n: "snippet_in_response copied_from_response" using T t m by blast
  show ?thesis using r s m d n by simp
qed

text \<open>
  As first worded, for every submission list, C6 fails: with two submissions of
  the same code \<open>x\<close> and a third whose code is a dictionary, \<open>set(codes)\<close> raises
  \<open>TypeError\<close> and no analysis comes back.
\<close>

theorem plagiarism_raises_on_dict_code:
  "length dict_code_submissions = 3
   \<and> dict_get (dict_code_submissions ! 0) ''code'' = PStr ''x''
   \<and> dict_get (dict_code_submissions ! 1) ''code'' = PStr ''x''
   \<and> analyze_plagiarism dict_code_submissions [] = Inl TypeError"
  by code_simp

end
